(* ===== verification/Prelude.thy ===== *)
theory Prelude
  imports Main "HOL-Library.Word"
begin

text \<open>
  What every component shares: the machine types of the \<open>x86_64-unknown-uefi\<close> target
  (\<open>usize\<close> is 64 bits wide), the checked and aligned arithmetic the code uses on them,
  little-endian encoding of words, and splicing of byte lists. The release profile, which is the
  one the \<open>Makefile\<close> builds, has no overflow checks: \<open>+\<close>, \<open>-\<close> and \<open>*\<close> wrap as the operations
  of \<open>HOL-Library.Word\<close> do.
\<close>

unbundle bit_operations_syntax

named_theorems le_simps \<open>little-endian encoding and decoding\<close>
named_theorems splice_simps \<open>reading and writing byte lists at an offset\<close>

type_synonym u8 = "8 word"
type_synonym u16 = "16 word"
type_synonym u32 = "32 word"
type_synonym u64 = "64 word"
type_synonym usize = "64 word"
type_synonym bytes = "u8 list"

section \<open>Checked and aligned arithmetic\<close>

text \<open>\<open>checked_add\<close> and \<open>checked_mul\<close> of the Rust integer types.\<close>

definition checked_add :: "'a::len word \<Rightarrow> 'a word \<Rightarrow> 'a word option" where
  "checked_add a b = (if unat a + unat b < 2 ^ LENGTH('a) then Some (a + b) else None)"

definition checked_mul :: "'a::len word \<Rightarrow> 'a word \<Rightarrow> 'a word option" where
  "checked_mul a b = (if unat a * unat b < 2 ^ LENGTH('a) then Some (a * b) else None)"

lemma unat_add_no_overflow:
  fixes a b :: "'a::len word"
  assumes "unat a + unat b < 2 ^ LENGTH('a)"
  shows "unat (a + b) = unat a + unat b"
  using assms by (simp add: unat_word_ariths)

lemma unat_mult_no_overflow:
  fixes a b :: "'a::len word"
  assumes "unat a * unat b < 2 ^ LENGTH('a)"
  shows "unat (a * b) = unat a * unat b"
  using assms by (simp add: unat_word_ariths)

lemma unat_u64_bound: "unat (w :: u64) < 2 ^ 64"
proof -
  have "unat w < 2 ^ LENGTH(64)" by (rule unsigned_less)
  then show ?thesis by simp
qed

lemma unat_u32_bound: "unat (w :: u32) < 2 ^ 32"
proof -
  have "unat w < 2 ^ LENGTH(32)" by (rule unsigned_less)
  then show ?thesis by simp
qed

lemma unat_u16_bound: "unat (w :: u16) < 2 ^ 16"
proof -
  have "unat w < 2 ^ LENGTH(16)" by (rule unsigned_less)
  then show ?thesis by simp
qed

lemma unat_u8_bound: "unat (w :: u8) < 2 ^ 8"
proof -
  have "unat w < 2 ^ LENGTH(8)" by (rule unsigned_less)
  then show ?thesis by simp
qed

text \<open>Widening casts keep the value; narrowing casts keep it where it fits.\<close>

lemma unat_widen [simp]:
  "unat (ucast (a :: u32) :: u64) = unat a" "unat (ucast (b :: u16) :: u64) = unat b"
  "unat (ucast (c :: u8) :: u64) = unat c" "unat (ucast (c :: u8) :: u32) = unat c"
  using unat_u32_bound [of a] unat_u16_bound [of b] unat_u8_bound [of c]
  by (simp_all add: unsigned_ucast_eq take_bit_nat_eq_self)

lemma unat_narrow32: "unat (a :: u64) < 2 ^ 32 \<Longrightarrow> unat (ucast a :: u32) = unat a"
  by (simp add: unsigned_ucast_eq take_bit_nat_eq_self)

lemma checked_add_Some:
  "checked_add a b = Some c \<Longrightarrow> unat c = unat a + unat b"
  by (auto simp: checked_add_def unat_add_no_overflow split: if_splits)

lemma checked_add_None_iff:
  "checked_add a b = None \<longleftrightarrow> 2 ^ LENGTH('a) \<le> unat (a :: 'a::len word) + unat b"
  by (auto simp: checked_add_def)

lemma checked_mul_Some:
  "checked_mul a b = Some c \<Longrightarrow> unat c = unat a * unat b"
  by (auto simp: checked_mul_def unat_mult_no_overflow split: if_splits)

text \<open>\<open>(pos + 7) & !7\<close> on positions inside a buffer, where nothing can wrap.\<close>

definition align8 :: "nat \<Rightarrow> nat" where
  "align8 n = (n + 7) div 8 * 8"

lemma align8_ge: "n \<le> align8 n"
  unfolding align8_def by presburger

lemma align8_lt: "align8 n < n + 8"
  unfolding align8_def by presburger

lemma align8_dvd: "8 dvd align8 n"
  by (simp add: align8_def)

lemma align8_id: "8 dvd n \<Longrightarrow> align8 n = n"
  unfolding align8_def by presburger

lemma align8_add:
  assumes "8 dvd n"
  shows "align8 (n + k) = n + align8 k"
proof -
  from assms obtain q where q: "n = 8 * q" ..
  have "(8 * q + (k + 7)) div 8 = q + (k + 7) div 8" by simp
  then show ?thesis unfolding align8_def q by (simp add: add.assoc)
qed

lemma align8_le: "n \<le> k \<Longrightarrow> 8 dvd k \<Longrightarrow> align8 n \<le> k"
  unfolding align8_def by presburger

text \<open>\<open>div_ceil\<close> of the unsigned types.\<close>

definition div_ceil :: "nat \<Rightarrow> nat \<Rightarrow> nat" where
  "div_ceil a b = a div b + (if a mod b = 0 then 0 else 1)"

lemma div_ceil_mult_ge:
  assumes "0 < b"
  shows "a \<le> div_ceil a b * b"
proof (cases "a mod b = 0")
  case True
  then show ?thesis by (auto simp: div_ceil_def)
next
  case False
  have "a = a div b * b + a mod b" by simp
  also have "\<dots> \<le> a div b * b + b"
    using assms by (intro add_left_mono) (simp add: less_imp_le)
  finally show ?thesis using False by (simp add: div_ceil_def)
qed

section \<open>Little-endian words\<close>

primrec to_le :: "nat \<Rightarrow> 'a::len word \<Rightarrow> bytes" where
  "to_le 0 w = []"
| "to_le (Suc n) w = ucast w # to_le n (drop_bit 8 w)"

primrec of_le :: "bytes \<Rightarrow> 'a::len word" where
  "of_le [] = 0"
| "of_le (b # bs) = ucast b OR push_bit 8 (of_le bs)"

lemma length_to_le [simp]: "length (to_le n w) = n"
  by (induction n arbitrary: w) auto

lemma of_le_to_le_step:
  fixes w :: "'a::len word"
  shows "ucast (ucast w :: u8) OR push_bit 8 (take_bit (8 * n) (drop_bit 8 w)) =
    take_bit (8 * Suc n) w"
  by (rule bit_word_eqI) (auto simp: bit_simps)

lemma of_le_to_le: "of_le (to_le n w) = take_bit (8 * n) w"
proof (induction n arbitrary: w)
  case 0
  then show ?case by simp
next
  case (Suc n)
  then show ?case using of_le_to_le_step [of w n] by simp
qed

lemma of_le_to_le_id [le_simps]:
  "LENGTH('a) \<le> 8 * n \<Longrightarrow> of_le (to_le n (w :: 'a::len word)) = w"
  by (simp add: of_le_to_le take_bit_word_eq_self)

lemma of_le_to_le_widths [simp, le_simps]:
  "of_le (to_le 2 (a :: u16)) = a"
  "of_le (to_le 4 (b :: u32)) = b"
  "of_le (to_le 8 (c :: u64)) = c"
  by (simp_all add: of_le_to_le_id)

lemma to_le_0_eq: "to_le n (0 :: 'a::len word) = replicate n 0"
  by (induction n) auto

section \<open>Byte lists written at an offset\<close>

text \<open>
  \<open>buf[o..o + n].copy_from_slice(bs)\<close> with \<open>n = bs.len()\<close>, for an offset that is in range.
\<close>

definition splice :: "'a list \<Rightarrow> nat \<Rightarrow> 'a list \<Rightarrow> 'a list" where
  "splice buf k bs = take k buf @ bs @ drop (k + length bs) buf"

definition slice :: "'a list \<Rightarrow> nat \<Rightarrow> nat \<Rightarrow> 'a list" where
  "slice buf k n = take n (drop k buf)"

lemma length_splice [simp]:
  "k + length bs \<le> length buf \<Longrightarrow> length (splice buf k bs) = length buf"
  by (simp add: splice_def)

lemma length_slice [simp]: "k + n \<le> length buf \<Longrightarrow> length (slice buf k n) = n"
  by (simp add: slice_def)

lemma nth_splice [splice_simps]:
  assumes "k + length bs \<le> length buf" and "i < length buf"
  shows "splice buf k bs ! i = (if k \<le> i \<and> i < k + length bs then bs ! (i - k) else buf ! i)"
  using assms by (auto simp: splice_def nth_append)

lemma nth_slice [splice_simps]: "k + n \<le> length buf \<Longrightarrow> i < n \<Longrightarrow> slice buf k n ! i = buf ! (k + i)"
  by (simp add: slice_def)

lemma slice_append_middle [splice_simps]: "slice (a @ b @ c) (length a) (length b) = b"
  by (simp add: slice_def)

lemma splice_append_middle [splice_simps]:
  "length y = length x \<Longrightarrow> splice (a @ x @ c) (length a) y = a @ y @ c"
  by (simp add: splice_def)

lemma splice_Nil [simp]: "k \<le> length buf \<Longrightarrow> splice buf k [] = buf"
  by (simp add: splice_def)

text \<open>Lists of equal length that agree at every index below it.\<close>

lemma list_eq_nthI:
  "length xs = length ys \<Longrightarrow> (\<And>i. i < length ys \<Longrightarrow> xs ! i = ys ! i) \<Longrightarrow> xs = ys"
  by (rule nth_equalityI) auto

end
