(* ===== verification/Memory.thy ===== *)
theory Memory
  imports Prelude
begin

text \<open>
  Physical memory, and the interface through which the components that build structures in it
  reason: a \<open>byte_store\<close> is read a byte at a time and written a run of bytes at an offset. It is
  interpreted on a window of physical memory (the Multiboot information area, the Linux
  \<open>boot_params\<close> page) and on a byte slice.
\<close>

section \<open>Memory as a function of the address\<close>

type_synonym memory = "u64 \<Rightarrow> u8"

text \<open>
  \<open>ptr::copy_nonoverlapping\<close> to \<open>a\<close>, \<open>ptr::write_bytes\<close> at \<open>a\<close>, and reading \<open>n\<close> bytes at \<open>a\<close>;
  addresses wrap at \<open>2 ^ 64\<close> as pointer arithmetic does.
\<close>

definition mem_write :: "memory \<Rightarrow> u64 \<Rightarrow> bytes \<Rightarrow> memory" where
  "mem_write m a bs = (\<lambda>x. if unat (x - a) < length bs then bs ! unat (x - a) else m x)"

definition mem_fill :: "memory \<Rightarrow> u64 \<Rightarrow> nat \<Rightarrow> u8 \<Rightarrow> memory" where
  "mem_fill m a n v = (\<lambda>x. if unat (x - a) < n then v else m x)"

definition mem_read :: "memory \<Rightarrow> u64 \<Rightarrow> nat \<Rightarrow> bytes" where
  "mem_read m a n = map (\<lambda>i. m (a + of_nat i)) [0..<n]"

lemma length_mem_read [simp]: "length (mem_read m a n) = n"
  by (simp add: mem_read_def)

lemma nth_mem_read [simp]: "i < n \<Longrightarrow> mem_read m a n ! i = m (a + of_nat i)"
  by (simp add: mem_read_def)

lemma mem_write_Nil [simp]: "mem_write m a [] = m"
  by (simp add: mem_write_def)

lemma mem_fill_eq_write: "mem_fill m a n v = mem_write m a (replicate n v)"
  by (auto simp: mem_fill_def mem_write_def fun_eq_iff)

text \<open>Whether an address lies in the \<open>n\<close> bytes at \<open>a\<close>.\<close>

definition in_range :: "u64 \<Rightarrow> nat \<Rightarrow> u64 \<Rightarrow> bool" where
  "in_range a n x \<longleftrightarrow> unat (x - a) < n"

lemma mem_write_outside [simp]: "\<not> in_range a (length bs) x \<Longrightarrow> mem_write m a bs x = m x"
  by (simp add: mem_write_def in_range_def)

lemma mem_fill_outside [simp]: "\<not> in_range a n x \<Longrightarrow> mem_fill m a n v x = m x"
  by (simp add: mem_fill_def in_range_def)

lemma unat_offset:
  assumes "i < 2 ^ 64"
  shows "unat (of_nat i :: u64) = i"
  using assms by (simp add: unat_of_nat take_bit_nat_eq_self)

lemma unat_of_nat_diff:
  assumes "i < 2 ^ 64" and "k \<le> i"
  shows "unat (of_nat i - of_nat k :: u64) = i - k"
proof -
  have "(of_nat i - of_nat k :: u64) = of_nat (i - k)"
    using assms(2) by simp
  then show ?thesis using assms unat_offset [of "i - k"] by simp
qed

lemma unat_of_nat_diff_wrap:
  assumes "k < 2 ^ 64" and "i < k"
  shows "unat (of_nat i - of_nat k :: u64) = 2 ^ 64 - (k - i)"
proof -
  have k: "unat (of_nat k :: u64) = k" and i: "unat (of_nat i :: u64) = i"
    using assms by (simp_all add: unat_offset)
  have "(of_nat i :: u64) < of_nat k"
    using assms k i by (simp add: word_less_nat_alt)
  then show ?thesis
    using assms k i by (simp add: unat_sub_if' word_le_nat_alt)
qed

text \<open>A write of at most the whole address space, seen from any base.\<close>

lemma mem_write_at:
  assumes "k + length bs \<le> 2 ^ 64" and "i < 2 ^ 64"
  shows "mem_write m (a + of_nat k) bs (a + of_nat i) =
    (if k \<le> i \<and> i < k + length bs then bs ! (i - k) else m (a + of_nat i))"
proof (cases "bs = []")
  case True
  then show ?thesis by auto
next
  case False
  with assms(1) have k: "k < 2 ^ 64" by (cases bs) auto
  have d: "a + of_nat i - (a + of_nat k) = (of_nat i - of_nat k :: u64)" by simp
  show ?thesis
  proof (cases "k \<le> i")
    case True
    with assms(2) have "unat (of_nat i - of_nat k :: u64) = i - k"
      by (rule unat_of_nat_diff)
    with True show ?thesis unfolding mem_write_def d by auto
  next
    case ik: False
    then have "unat (of_nat i - of_nat k :: u64) = 2 ^ 64 - (k - i)"
      using unat_of_nat_diff_wrap [OF k] by simp
    then have "\<not> unat (of_nat i - of_nat k :: u64) < length bs"
      using assms(1) ik by simp
    with ik show ?thesis unfolding mem_write_def d by simp
  qed
qed

lemma offset_exhaust:
  fixes x a :: u64
  obtains i where "x = a + of_nat i" and "i < 2 ^ 64" and "i = unat (x - a)"
proof (rule that)
  show "x = a + of_nat (unat (x - a))" by simp
  show "unat (x - a) < 2 ^ 64" by (rule unat_u64_bound)
qed simp

lemma in_range_offset [simp]:
  "i < 2 ^ 64 \<Longrightarrow> in_range a n (a + of_nat i) \<longleftrightarrow> i < n"
  by (simp add: in_range_def unat_offset)

lemma mem_write_write:
  assumes "length xs + length ys \<le> 2 ^ 64"
  shows "mem_write (mem_write m a xs) (a + of_nat (length xs)) ys = mem_write m a (xs @ ys)"
proof
  fix x
  obtain i where x: "x = a + of_nat i" "i < 2 ^ 64" by (rule offset_exhaust)
  have "mem_write m' a zs (a + of_nat i) = (if i < length zs then zs ! i else m' (a + of_nat i))"
    if "length zs \<le> 2 ^ 64" for m' zs
    using mem_write_at [of 0 zs i m' a] that x(2) by simp
  then show "mem_write (mem_write m a xs) (a + of_nat (length xs)) ys x = mem_write m a (xs @ ys) x"
    unfolding x(1) mem_write_at [OF assms x(2)] using assms by (auto simp: nth_append)
qed

lemma mem_read_write_same:
  "length bs \<le> 2 ^ 64 \<Longrightarrow> mem_read (mem_write m a bs) a (length bs) = bs"
  using mem_write_at [of 0 bs _ m a] by (auto intro!: nth_equalityI)

lemma mem_read_cong:
  "(\<And>i. i < n \<Longrightarrow> m (a + of_nat i) = m' (a + of_nat i)) \<Longrightarrow> mem_read m a n = mem_read m' a n"
  by (simp add: mem_read_def)

section \<open>The byte store interface\<close>

locale byte_store =
  fixes get :: "'s \<Rightarrow> nat \<Rightarrow> u8"
    and put :: "'s \<Rightarrow> nat \<Rightarrow> bytes \<Rightarrow> 's"
    and cap :: "'s \<Rightarrow> nat"
  assumes get_put: "k + length bs \<le> cap s \<Longrightarrow> i < cap s \<Longrightarrow>
      get (put s k bs) i = (if k \<le> i \<and> i < k + length bs then bs ! (i - k) else get s i)"
    and cap_put: "k + length bs \<le> cap s \<Longrightarrow> cap (put s k bs) = cap s"
begin

definition view :: "'s \<Rightarrow> bytes" where
  "view s = map (get s) [0..<cap s]"

definition emitted :: "'s \<Rightarrow> bytes \<Rightarrow> bool" where
  "emitted s bs \<longleftrightarrow> length bs \<le> cap s \<and> view s = bs @ replicate (cap s - length bs) 0"

lemma length_view [simp]: "length (view s) = cap s"
  by (simp add: view_def)

lemma nth_view [simp]: "i < cap s \<Longrightarrow> view s ! i = get s i"
  by (simp add: view_def)

lemma view_put: "k + length bs \<le> cap s \<Longrightarrow> view (put s k bs) = splice (view s) k bs"
  by (rule list_eq_nthI) (auto simp: cap_put get_put nth_splice)

text \<open>Reading back what was written, and the frame: what a write elsewhere leaves alone.\<close>

lemma slice_put: "k + length bs \<le> cap s \<Longrightarrow> slice (view (put s k bs)) k (length bs) = bs"
  by (auto intro!: nth_equalityI simp: cap_put get_put nth_slice)

lemma slice_put_frame:
  assumes "k + length bs \<le> cap s" and "j + n \<le> cap s"
    and "j + n \<le> k \<or> k + length bs \<le> j"
  shows "slice (view (put s k bs)) j n = slice (view s) j n"
  using assms by (auto intro!: nth_equalityI simp: cap_put get_put nth_slice)

text \<open>
  The store as an output buffer: \<open>emitted s bs\<close> says that \<open>bs\<close> has been written from the start
  and that the rest is still zero. Appending, skipping over zeros and patching what is there
  already are the three ways the builders write.
\<close>

lemma emitted_Nil: "view s = replicate (cap s) 0 \<Longrightarrow> emitted s []"
  by (simp add: emitted_def)

lemma emitted_append:
  assumes "emitted s bs" and "length bs + length xs \<le> cap s"
  shows "emitted (put s (length bs) xs) (bs @ xs)"
proof -
  have "view (put s (length bs) xs) = splice (view s) (length bs) xs"
    using assms by (simp add: view_put)
  also have "\<dots> = bs @ xs @ replicate (cap s - (length bs + length xs)) 0"
    using assms by (simp add: emitted_def splice_def diff_diff_left)
  finally show ?thesis using assms by (simp add: emitted_def cap_put)
qed

lemma emitted_skip:
  "emitted s bs \<Longrightarrow> length bs + n \<le> cap s \<Longrightarrow> emitted s (bs @ replicate n 0)"
  by (simp add: emitted_def replicate_add [symmetric])

lemma emitted_patch:
  assumes "emitted s (a @ x @ c)" and "length y = length x"
  shows "emitted (put s (length a) y) (a @ y @ c)"
proof -
  have "view (put s (length a) y) = splice (view s) (length a) y"
    using assms by (intro view_put) (simp add: emitted_def)
  also have "\<dots> = a @ y @ c @ replicate (cap s - length (a @ x @ c)) 0"
    using assms splice_append_middle [of y x a "c @ replicate (cap s - length (a @ x @ c)) 0"]
    by (simp add: emitted_def)
  finally show ?thesis
    using assms by (simp add: emitted_def cap_put)
qed

end

section \<open>Byte slices are byte stores\<close>

definition buf_get :: "bytes \<Rightarrow> nat \<Rightarrow> u8" where
  "buf_get b i = b ! i"

interpretation buf: byte_store buf_get splice length
  by unfold_locales (auto simp: buf_get_def nth_splice)

lemma buf_view [simp]: "buf.view b = b"
  by (rule nth_equalityI) (auto simp: buf_get_def)

section \<open>Windows of memory\<close>

text \<open>
  The run of bytes at \<open>a\<close>, read and written by offset, and a store with a frame: a relation that
  every write keeps to, which for a window is that the rest of memory is as it was.
\<close>

definition win_get :: "u64 \<Rightarrow> memory \<Rightarrow> nat \<Rightarrow> u8" where
  "win_get a m i = m (a + of_nat i)"

definition win_put :: "u64 \<Rightarrow> memory \<Rightarrow> nat \<Rightarrow> bytes \<Rightarrow> memory" where
  "win_put a m k bs = mem_write m (a + of_nat k) bs"

definition same_outside :: "u64 \<Rightarrow> nat \<Rightarrow> memory \<Rightarrow> memory \<Rightarrow> bool" where
  "same_outside a n m m' \<longleftrightarrow> (\<forall>x. \<not> in_range a n x \<longrightarrow> m' x = m x)"

lemma same_outside_refl [simp]: "same_outside a n m m"
  by (simp add: same_outside_def)

lemma same_outside_trans: "same_outside a n m1 m2 \<Longrightarrow> same_outside a n m2 m3 \<Longrightarrow> same_outside a n m1 m3"
  by (simp add: same_outside_def)

lemma win_get_put:
  assumes "k + length bs \<le> 2 ^ 64" and "i < 2 ^ 64"
  shows "win_get a (win_put a m k bs) i = (if k \<le> i \<and> i < k + length bs then bs ! (i - k) else win_get a m i)"
  using mem_write_at [OF assms] by (simp add: win_get_def win_put_def)

lemma same_outside_put:
  assumes "k + length bs \<le> n" and "n \<le> 2 ^ 64"
  shows "same_outside a n m (win_put a m k bs)"
  unfolding same_outside_def
proof (intro allI impI)
  fix x assume x: "\<not> in_range a n x"
  obtain i where i: "x = a + of_nat i" "i < 2 ^ 64" by (rule offset_exhaust)
  with x assms have "n \<le> i" by simp
  with i assms show "win_put a m k bs x = m x"
    using win_get_put [of k bs i a m] by (simp add: win_get_def)
qed

lemma win_put_put:
  assumes "j = k + length xs" and "length xs + length ys \<le> 2 ^ 64"
  shows "win_put a (win_put a m k xs) j ys = win_put a m k (xs @ ys)"
  using mem_write_write [OF assms(2), of m "a + of_nat k"] by (simp add: win_put_def assms(1) add.assoc)

locale framed_store = byte_store get put cap
  for get :: "'s \<Rightarrow> nat \<Rightarrow> u8" and put :: "'s \<Rightarrow> nat \<Rightarrow> bytes \<Rightarrow> 's" and cap :: "'s \<Rightarrow> nat" +
  fixes frame :: "'s \<Rightarrow> 's \<Rightarrow> bool"
  assumes frame_trans: "frame s1 s2 \<Longrightarrow> frame s2 s3 \<Longrightarrow> frame s1 s3"
    and frame_put: "k + length bs \<le> cap s \<Longrightarrow> frame s (put s k bs)"
begin

definition written :: "'s \<Rightarrow> bytes \<Rightarrow> 's \<Rightarrow> bool" where
  "written s0 bs s \<longleftrightarrow> emitted s bs \<and> frame s0 s"

lemma written_cleared:
  assumes "frame s0 s" and "view s = replicate (cap s) 0"
  shows "written s0 [] s"
  using assms by (simp add: written_def emitted_Nil)

lemma written_append:
  assumes "written s0 bs s" and "pos = length bs" and "pos + length xs \<le> cap s"
  shows "written s0 (bs @ xs) (put s pos xs)"
  using assms frame_trans frame_put emitted_append unfolding written_def by blast

lemma written_skip:
  "written s0 bs s \<Longrightarrow> length bs + n \<le> cap s \<Longrightarrow> written s0 (bs @ replicate n 0) s"
  by (simp add: written_def emitted_skip)

lemma written_patch:
  assumes "written s0 (a @ x @ c) s" and "pos = length a" and "length y = length x"
  shows "written s0 (a @ y @ c) (put s pos y)"
proof -
  have "length a + length y \<le> cap s"
    using assms(1,3) by (simp add: written_def emitted_def)
  then show ?thesis
    using assms emitted_patch [of s a x c y] frame_put [of pos y s] frame_trans
    unfolding written_def by blast
qed

lemma written_frame: "written s0 bs s \<Longrightarrow> frame s0 s"
  by (simp add: written_def)

lemma written_length: "written s0 bs s \<Longrightarrow> length bs \<le> cap s"
  by (simp add: written_def emitted_def)

lemma written_view: "written s0 bs s \<Longrightarrow> view s = bs @ replicate (cap s - length bs) 0"
  by (simp add: written_def emitted_def)

end

end
