(* ===== verification/RustStd.thy ===== *)
theory RustStd
  imports Prelude
begin

text \<open>
  The parts of Rust's \<open>core\<close> and \<open>alloc\<close> the program uses on text. A \<open>str\<close> is a list of Unicode
  scalar values (the UTF-8 bytes are recovered by \<open>utf8_encode\<close> where the code counts bytes), a
  \<open>CStr16\<close> is the list of its 16-bit units without the terminator.
\<close>

type_synonym scalar = nat
type_synonym ustr = "scalar list"
type_synonym cstr16 = "u16 list"

definition lit :: "string \<Rightarrow> ustr" where
  "lit s = map of_char s"

lemma lit_Nil [simp]: "lit [] = []"
  by (simp add: lit_def)

lemma lit_Cons [simp]: "lit (c # s) = of_char c # lit s"
  by (simp add: lit_def)

definition lit16 :: "string \<Rightarrow> cstr16" where
  "lit16 s = map of_char s"

lemma lit16_Nil [simp]: "lit16 [] = []"
  by (simp add: lit16_def)

lemma lit16_Cons [simp]: "lit16 (c # s) = of_char c # lit16 s"
  by (simp add: lit16_def)

lemma lit_eq_iff [simp]: "lit s = lit t \<longleftrightarrow> s = t"
  by (simp add: lit_def inj_map_eq_map inj_of_char)

section \<open>White space, trimming, lines\<close>

text \<open>\<open>char::is_whitespace\<close>: the Unicode property \<open>White_Space\<close>.\<close>

definition is_whitespace :: "scalar \<Rightarrow> bool" where
  "is_whitespace c \<longleftrightarrow> (9 \<le> c \<and> c \<le> 13) \<or> c = 32 \<or> c = 0x85 \<or> c = 0xA0 \<or> c = 0x1680 \<or>
     (0x2000 \<le> c \<and> c \<le> 0x200A) \<or> c = 0x2028 \<or> c = 0x2029 \<or> c = 0x202F \<or> c = 0x205F \<or>
     c = 0x3000"

definition trim_start :: "ustr \<Rightarrow> ustr" where
  "trim_start s = dropWhile is_whitespace s"

definition trim_end :: "ustr \<Rightarrow> ustr" where
  "trim_end s = rev (dropWhile is_whitespace (rev s))"

definition trim :: "ustr \<Rightarrow> ustr" where
  "trim s = trim_end (trim_start s)"

text \<open>\<open>split_inclusive('\n')\<close>, each piece then stripped of its line ending.\<close>

fun split_inclusive :: "scalar \<Rightarrow> ustr \<Rightarrow> ustr list" where
  "split_inclusive c [] = []"
| "split_inclusive c (x # xs) =
     (if x = c then [c] # split_inclusive c xs
      else case split_inclusive c xs of
             [] \<Rightarrow> [[x]]
           | l # ls \<Rightarrow> (x # l) # ls)"

definition strip_suffix :: "scalar \<Rightarrow> ustr \<Rightarrow> ustr option" where
  "strip_suffix c s = (if s \<noteq> [] \<and> last s = c then Some (butlast s) else None)"

definition strip_eol :: "ustr \<Rightarrow> ustr" where
  "strip_eol l = (case strip_suffix 10 l of
     None \<Rightarrow> l
   | Some l' \<Rightarrow> (case strip_suffix 13 l' of None \<Rightarrow> l' | Some l'' \<Rightarrow> l''))"

definition str_lines :: "ustr \<Rightarrow> ustr list" where
  "str_lines s = map strip_eol (split_inclusive 10 s)"

text \<open>A trimmed string has no white space at either end.\<close>

definition trimmed :: "ustr \<Rightarrow> bool" where
  "trimmed s \<longleftrightarrow> s = [] \<or> (\<not> is_whitespace (hd s) \<and> \<not> is_whitespace (last s))"

lemma trim_start_id: "s = [] \<or> \<not> is_whitespace (hd s) \<Longrightarrow> trim_start s = s"
  by (cases s) (auto simp: trim_start_def)

lemma trim_end_id: "s = [] \<or> \<not> is_whitespace (last s) \<Longrightarrow> trim_end s = s"
  by (cases s rule: rev_cases) (auto simp: trim_end_def)

lemma trim_trimmed [simp]: "trimmed s \<Longrightarrow> trim s = s"
  by (auto simp: trimmed_def trim_def trim_start_id trim_end_id)

lemma dropWhile_hd: "dropWhile P xs \<noteq> [] \<Longrightarrow> \<not> P (hd (dropWhile P xs))"
  by (rule hd_dropWhile)

lemma last_trim_end: "trim_end s \<noteq> [] \<Longrightarrow> \<not> is_whitespace (last (trim_end s))"
  by (simp add: trim_end_def last_rev dropWhile_hd)

lemma trim_end_prefix: "\<exists>w. s = trim_end s @ w \<and> (\<forall>c \<in> set w. is_whitespace c)"
proof -
  have "rev s = takeWhile is_whitespace (rev s) @ dropWhile is_whitespace (rev s)" by simp
  then have "s = trim_end s @ rev (takeWhile is_whitespace (rev s))"
    unfolding trim_end_def by (metis rev_append rev_rev_ident)
  moreover have "\<forall>c \<in> set (rev (takeWhile is_whitespace (rev s))). is_whitespace c"
    by (auto dest: set_takeWhileD)
  ultimately show ?thesis by blast
qed

lemma hd_trim_end:
  assumes "trim_end s \<noteq> []"
  shows "hd (trim_end s) = hd s"
  using trim_end_prefix [of s] assms by (metis hd_append2)

lemma trimmed_trim: "trimmed (trim s)"
proof (cases "trim s = []")
  case False
  then have e: "trim_end (trim_start s) \<noteq> []" by (simp add: trim_def)
  then have "trim_start s \<noteq> []" by (auto simp: trim_end_def)
  then have "\<not> is_whitespace (hd (trim_start s))"
    unfolding trim_start_def by (rule dropWhile_hd)
  with e show ?thesis
    by (simp add: trimmed_def trim_def hd_trim_end last_trim_end)
qed (simp add: trimmed_def)

lemma trim_start_append:
  "(\<forall>c \<in> set w. is_whitespace c) \<Longrightarrow> trim_start (w @ s) = trim_start s"
  by (simp add: trim_start_def dropWhile_append2)

lemma trim_pad_left: "(\<forall>c \<in> set w. is_whitespace c) \<Longrightarrow> trim (w @ s) = trim s"
  by (simp add: trim_def trim_start_append)

text \<open>Joining lines with newlines and splitting them again.\<close>

definition unlines :: "ustr list \<Rightarrow> ustr" where
  "unlines ls = concat (map (\<lambda>l. l @ [10]) ls)"

lemma split_inclusive_append:
  "c \<notin> set l \<Longrightarrow> split_inclusive c (l @ c # r) = (l @ [c]) # split_inclusive c r"
  by (induction l) auto

lemma strip_eol_line: "l = [] \<or> last l \<noteq> 13 \<Longrightarrow> strip_eol (l @ [10]) = l"
  by (auto simp: strip_eol_def strip_suffix_def)

lemma str_lines_unlines:
  assumes "\<forall>l \<in> set ls. 10 \<notin> set l \<and> (l = [] \<or> last l \<noteq> 13)"
  shows "str_lines (unlines ls) = ls"
  using assms
proof (induction ls)
  case Nil
  then show ?case by (simp add: str_lines_def unlines_def)
next
  case (Cons l ls)
  have "split_inclusive 10 (l @ 10 # unlines ls) = (l @ [10]) # split_inclusive 10 (unlines ls)"
    using Cons.prems by (simp add: split_inclusive_append)
  moreover have "unlines (l # ls) = l @ 10 # unlines ls"
    by (simp add: unlines_def)
  ultimately show ?case
    using Cons by (simp add: str_lines_def strip_eol_line)
qed

section \<open>Decimal numbers\<close>

text \<open>
  \<open>char::to_digit(10)\<close>, and \<open>str::parse::<u64>()\<close>: an optional plus sign and at least one digit,
  with \<open>checked_mul\<close> and \<open>checked_add\<close> at each digit. A minus sign is no digit of an unsigned
  number.
\<close>

definition to_digit10 :: "scalar \<Rightarrow> nat option" where
  "to_digit10 c = (if 48 \<le> c \<and> c \<le> 57 then Some (c - 48) else None)"

fun parse_digits :: "nat \<Rightarrow> ustr \<Rightarrow> nat option" where
  "parse_digits acc [] = Some acc"
| "parse_digits acc (c # cs) =
     (if 2 ^ 64 \<le> acc * 10 then None
      else case to_digit10 c of
             None \<Rightarrow> None
           | Some d \<Rightarrow> if 2 ^ 64 \<le> acc * 10 + d then None else parse_digits (acc * 10 + d) cs)"

definition parse_u64 :: "ustr \<Rightarrow> nat option" where
  "parse_u64 s = (case s of
     [] \<Rightarrow> None
   | c # cs \<Rightarrow> if c = 43 then (if cs = [] then None else parse_digits 0 cs)
              else if c = 45 \<and> cs = [] then None
              else parse_digits 0 s)"

lemma parse_digits_bound: "acc < 2 ^ 64 \<Longrightarrow> parse_digits acc s = Some n \<Longrightarrow> n < 2 ^ 64"
  by (induction acc s rule: parse_digits.induct) (auto split: if_splits option.splits)

lemma parse_u64_bound:
  assumes "parse_u64 s = Some n"
  shows "n < 2 ^ 64"
proof -
  from assms have "\<exists>t. parse_digits 0 t = Some n"
    by (cases s) (auto simp: parse_u64_def simp del: parse_digits.simps split: if_splits)
  then show ?thesis using parse_digits_bound [of 0] by auto
qed

text \<open>The value of a digit string, and printing.\<close>

fun decimal :: "nat \<Rightarrow> ustr" where
  "decimal n = (if n < 10 then [48 + n] else decimal (n div 10) @ [48 + n mod 10])"

declare decimal.simps [simp del]

lemma decimal_digits: "\<forall>c \<in> set (decimal n). 48 \<le> c \<and> c \<le> 57"
proof (induction n rule: decimal.induct)
  case (1 n)
  show ?case
  proof (cases "n < 10")
    case True
    then show ?thesis by (subst decimal.simps) auto
  next
    case False
    with 1 have "\<forall>c \<in> set (decimal (n div 10)). 48 \<le> c \<and> c \<le> 57" by simp
    with False show ?thesis by (subst decimal.simps) auto
  qed
qed

lemma decimal_nonempty [simp]: "decimal n \<noteq> []"
  by (subst decimal.simps) simp

lemma parse_digits_append:
  "parse_digits acc (s @ t) = (case parse_digits acc s of None \<Rightarrow> None | Some v \<Rightarrow> parse_digits v t)"
  by (induction acc s rule: parse_digits.induct) (auto split: option.splits)

lemma parse_digits_decimal: "n < 2 ^ 64 \<Longrightarrow> parse_digits 0 (decimal n) = Some n"
proof (induction n rule: decimal.induct)
  case (1 n)
  show ?case
  proof (cases "n < 10")
    case True
    then show ?thesis by (subst decimal.simps) (simp add: to_digit10_def)
  next
    case False
    with 1 have "parse_digits 0 (decimal (n div 10)) = Some (n div 10)" by simp
    moreover have "n div 10 * 10 + n mod 10 = n" by simp
    moreover have "n div 10 * 10 < 2 ^ 64" using "1.prems" by simp
    ultimately show ?thesis
      using False "1.prems" by (subst decimal.simps) (simp add: parse_digits_append to_digit10_def)
  qed
qed

lemma parse_u64_decimal:
  assumes "n < 2 ^ 64"
  shows "parse_u64 (decimal n) = Some n"
proof -
  obtain c cs where d: "decimal n = c # cs" by (cases "decimal n") auto
  with decimal_digits [of n] have "c \<noteq> 43" "c \<noteq> 45" by auto
  with d parse_digits_decimal [OF assms] show ?thesis by (simp add: parse_u64_def)
qed

lemma not_whitespace_digit: "48 \<le> c \<Longrightarrow> c \<le> 57 \<Longrightarrow> \<not> is_whitespace c"
  by (auto simp: is_whitespace_def)

lemma trimmed_decimal: "trimmed (decimal n)"
  using decimal_digits [of n] not_whitespace_digit unfolding trimmed_def
  by (metis decimal_nonempty hd_in_set last_in_set)

section \<open>ASCII case, UTF-8 lengths\<close>

definition to_ascii_upper :: "scalar \<Rightarrow> scalar" where
  "to_ascii_upper c = (if 97 \<le> c \<and> c \<le> 122 then c - 32 else c)"

definition to_ascii_uppercase :: "ustr \<Rightarrow> ustr" where
  "to_ascii_uppercase s = map to_ascii_upper s"

definition eq_ignore_ascii_case :: "ustr \<Rightarrow> ustr \<Rightarrow> bool" where
  "eq_ignore_ascii_case a b \<longleftrightarrow> to_ascii_uppercase a = to_ascii_uppercase b"

definition str_ends_with :: "ustr \<Rightarrow> ustr \<Rightarrow> bool" where
  "str_ends_with hay needle \<longleftrightarrow>
     length needle \<le> length hay \<and> drop (length hay - length needle) hay = needle"

lemma str_ends_with_iff: "str_ends_with hay needle \<longleftrightarrow> (\<exists>p. hay = p @ needle)"
proof
  assume h: "str_ends_with hay needle"
  have "hay = take (length hay - length needle) hay @ drop (length hay - length needle) hay" by simp
  with h show "\<exists>p. hay = p @ needle" unfolding str_ends_with_def by metis
qed (auto simp: str_ends_with_def)

definition utf8_char :: "scalar \<Rightarrow> bytes" where
  "utf8_char c =
     (if c < 0x80 then [of_nat c]
      else if c < 0x800 then [of_nat (0xC0 + c div 0x40), of_nat (0x80 + c mod 0x40)]
      else if c < 0x10000 then
        [of_nat (0xE0 + c div 0x1000), of_nat (0x80 + c div 0x40 mod 0x40), of_nat (0x80 + c mod 0x40)]
      else [of_nat (0xF0 + c div 0x40000), of_nat (0x80 + c div 0x1000 mod 0x40),
        of_nat (0x80 + c div 0x40 mod 0x40), of_nat (0x80 + c mod 0x40)])"

definition utf8_encode :: "ustr \<Rightarrow> bytes" where
  "utf8_encode s = concat (map utf8_char s)"

text \<open>\<open>String::len\<close> counts bytes.\<close>

definition str_len :: "ustr \<Rightarrow> nat" where
  "str_len s = length (utf8_encode s)"

lemma str_len_ascii: "\<forall>c \<in> set s. c < 0x80 \<Longrightarrow> str_len s = length s"
  by (induction s) (auto simp: str_len_def utf8_encode_def utf8_char_def)

text \<open>
  \<open>core::str::from_utf8\<close>: one scalar at a time, refusing overlong forms, surrogates and values
  above \<open>0x10FFFF\<close>.
\<close>

definition utf8_cont :: "u8 \<Rightarrow> bool" where
  "utf8_cont b \<longleftrightarrow> 0x80 \<le> unat b \<and> unat b < 0xC0"

fun utf8_decode :: "bytes \<Rightarrow> ustr option" where
  "utf8_decode [] = Some []"
| "utf8_decode (a # bs) =
     (let u = unat a in
      if u < 0x80 then map_option (Cons u) (utf8_decode bs)
      else if 0xC2 \<le> u \<and> u < 0xE0 then
        (case bs of b # bs \<Rightarrow>
           if utf8_cont b then map_option (Cons ((u - 0xC0) * 0x40 + (unat b - 0x80))) (utf8_decode bs) else None
         | _ \<Rightarrow> None)
      else if 0xE0 \<le> u \<and> u < 0xF0 then
        (case bs of b # c # bs \<Rightarrow>
           if utf8_cont b \<and> utf8_cont c \<and> (u = 0xE0 \<longrightarrow> 0xA0 \<le> unat b) \<and> (u = 0xED \<longrightarrow> unat b < 0xA0)
           then map_option (Cons ((u - 0xE0) * 0x1000 + (unat b - 0x80) * 0x40 + (unat c - 0x80))) (utf8_decode bs)
           else None
         | _ \<Rightarrow> None)
      else if 0xF0 \<le> u \<and> u < 0xF5 then
        (case bs of b # c # d # bs \<Rightarrow>
           if utf8_cont b \<and> utf8_cont c \<and> utf8_cont d \<and> (u = 0xF0 \<longrightarrow> 0x90 \<le> unat b) \<and> (u = 0xF4 \<longrightarrow> unat b < 0x90)
           then map_option (Cons ((u - 0xF0) * 0x40000 + (unat b - 0x80) * 0x1000 + (unat c - 0x80) * 0x40 + (unat d - 0x80)))
             (utf8_decode bs)
           else None
         | _ \<Rightarrow> None)
      else None)"

definition scalar_value :: "scalar \<Rightarrow> bool" where
  "scalar_value c \<longleftrightarrow> c < 0xD800 \<or> 0xE000 \<le> c \<and> c < 0x110000"

lemma unat_u8_of_nat: "n < 256 \<Longrightarrow> unat (of_nat n :: u8) = n"
  by (simp add: unat_of_nat take_bit_nat_eq_self)

text \<open>The encodings of each length, by their digits in base 64.\<close>

lemma utf8_decode_2:
  assumes "2 \<le> a" "a < 32" "b < 64"
  shows "utf8_decode (of_nat (0xC0 + a) # of_nat (0x80 + b) # bs) =
    map_option (Cons (a * 0x40 + b)) (utf8_decode bs)"
proof -
  have "unat (of_nat (0xC0 + a) :: u8) = 0xC0 + a" "unat (of_nat (0x80 + b) :: u8) = 0x80 + b"
    using assms by (intro unat_u8_of_nat; simp)+
  with assms show ?thesis by (simp add: utf8_cont_def Let_def del: of_nat_add)
qed

lemma utf8_decode_3:
  assumes "a < 16" "b < 64" "c < 64" "a = 0 \<longrightarrow> 32 \<le> b" "a = 13 \<longrightarrow> b < 32"
  shows "utf8_decode (of_nat (0xE0 + a) # of_nat (0x80 + b) # of_nat (0x80 + c) # bs) =
    map_option (Cons (a * 0x1000 + b * 0x40 + c)) (utf8_decode bs)"
proof -
  have "unat (of_nat (0xE0 + a) :: u8) = 0xE0 + a" "unat (of_nat (0x80 + b) :: u8) = 0x80 + b"
    "unat (of_nat (0x80 + c) :: u8) = 0x80 + c"
    using assms(1-3) by (intro unat_u8_of_nat; simp)+
  with assms show ?thesis by (simp add: utf8_cont_def Let_def del: of_nat_add)
qed

lemma utf8_decode_4:
  assumes "a < 5" "b < 64" "c < 64" "d < 64" "a = 0 \<longrightarrow> 16 \<le> b" "a = 4 \<longrightarrow> b < 16"
  shows "utf8_decode (of_nat (0xF0 + a) # of_nat (0x80 + b) # of_nat (0x80 + c) # of_nat (0x80 + d) # bs) =
    map_option (Cons (a * 0x40000 + b * 0x1000 + c * 0x40 + d)) (utf8_decode bs)"
proof -
  have "unat (of_nat (0xF0 + a) :: u8) = 0xF0 + a" "unat (of_nat (0x80 + b) :: u8) = 0x80 + b"
    "unat (of_nat (0x80 + c) :: u8) = 0x80 + c" "unat (of_nat (0x80 + d) :: u8) = 0x80 + d"
    using assms(1-4) by (intro unat_u8_of_nat; simp)+
  with assms show ?thesis by (simp add: utf8_cont_def Let_def del: of_nat_add)
qed

lemma base64_digits:
  fixes c :: nat
  shows "c div 0x40 * 0x40 + c mod 0x40 = c"
    and "c div 0x1000 * 0x1000 + c div 0x40 mod 0x40 * 0x40 + c mod 0x40 = c"
    and "c div 0x40000 * 0x40000 + c div 0x1000 mod 0x40 * 0x1000 + c div 0x40 mod 0x40 * 0x40 + c mod 0x40 = c"
proof -
  have *: "k div 0x40 * 0x40 + k mod 0x40 = k" for k :: nat by simp
  show "c div 0x40 * 0x40 + c mod 0x40 = c" by (rule *)
  have d: "c div 0x1000 = c div 0x40 div 0x40" "c div 0x40000 = c div 0x1000 div 0x40"
    by (simp_all add: div_mult2_eq [symmetric])
  show "c div 0x1000 * 0x1000 + c div 0x40 mod 0x40 * 0x40 + c mod 0x40 = c"
    using * [of c] * [of "c div 0x40"] d by linarith
  then show "c div 0x40000 * 0x40000 + c div 0x1000 mod 0x40 * 0x1000 + c div 0x40 mod 0x40 * 0x40 + c mod 0x40 = c"
    using * [of "c div 0x1000"] d by linarith
qed

lemma utf8_decode_char:
  assumes "scalar_value c"
  shows "utf8_decode (utf8_char c @ bs) = map_option (Cons c) (utf8_decode bs)"
proof -
  have k: "k mod 0x40 < 0x40" for k :: nat by simp
  consider "c < 0x80" | "0x80 \<le> c" "c < 0x800" | "0x800 \<le> c" "c < 0x10000" | "0x10000 \<le> c"
    by linarith
  then show ?thesis
  proof cases
    case 1
    then have "unat (of_nat c :: u8) = c" by (intro unat_u8_of_nat) simp
    with 1 show ?thesis by (simp add: utf8_char_def)
  next
    case 2
    then have "2 \<le> c div 0x40" "c div 0x40 < 0x20" by auto
    from utf8_decode_2 [OF this k [of c], of bs] 2 show ?thesis
      by (simp add: utf8_char_def base64_digits del: utf8_decode.simps of_nat_add)
  next
    case 3
    have q: "c div 0x1000 * 0x40 + c div 0x40 mod 0x40 = c div 0x40"
      using base64_digits(1) [of "c div 0x40"] by (simp add: div_mult2_eq [symmetric])
    have "0x20 \<le> c div 0x40" using 3 by auto
    then have z: "c div 0x1000 = 0 \<longrightarrow> 0x20 \<le> c div 0x40 mod 0x40" using q by linarith
    have s: "c div 0x1000 = 0xD \<longrightarrow> c div 0x40 mod 0x40 < 0x20"
    proof
      assume d: "c div 0x1000 = 0xD"
      then have "c < 0xE000" using dividend_less_div_times [of "0x1000" c] by simp
      then have "c < 0xD800" using assms by (auto simp: scalar_value_def)
      then have "c div 0x40 < 0x360" by auto
      with q d show "c div 0x40 mod 0x40 < 0x20" by linarith
    qed
    have "c div 0x1000 < 0x10" using 3 by auto
    from utf8_decode_3 [OF this k k [of c] z s, of bs] 3 show ?thesis
      by (simp add: utf8_char_def base64_digits del: utf8_decode.simps of_nat_add)
  next
    case 4
    then have l: "c < 0x110000" using assms by (auto simp: scalar_value_def)
    have q: "c div 0x40000 * 0x40 + c div 0x1000 mod 0x40 = c div 0x1000"
      using base64_digits(1) [of "c div 0x1000"] by (simp add: div_mult2_eq [symmetric])
    have "0x10 \<le> c div 0x1000" "c div 0x1000 < 0x110" using 4 l by auto
    then have z: "c div 0x40000 = 0 \<longrightarrow> 0x10 \<le> c div 0x1000 mod 0x40"
      and t: "c div 0x40000 = 4 \<longrightarrow> c div 0x1000 mod 0x40 < 0x10" using q by linarith+
    have "c div 0x40000 < 5" using l by auto
    from utf8_decode_4 [OF this k k k [of c] z t, of "c div 0x40" bs] 4 show ?thesis
      by (simp add: utf8_char_def base64_digits del: utf8_decode.simps of_nat_add)
  qed
qed

lemma utf8_decode_encode: "\<forall>c \<in> set s. scalar_value c \<Longrightarrow> utf8_decode (utf8_encode s) = Some s"
  by (induction s) (simp_all add: utf8_encode_def utf8_decode_char del: utf8_decode.simps(2))

end
