(* ===== verification/Uefi.thy ===== *)
theory Uefi
  imports Memory RustStd
begin

text \<open>
  The firmware, as the \<open>uefi\<close> crate presents it. Neither is part of the repository, so every call
  is a field of the record \<open>firmware\<close>, an argument of the definitions that make it: a function of
  the firmware's own state \<open>'f\<close>, which it may change. What the program relies on is stated as
  predicates on that record, and used as hypotheses.
\<close>

type_synonym handle = nat

datatype status =
    SUCCESS | NOT_FOUND | LOAD_ERROR | UNSUPPORTED | OUT_OF_RESOURCES | BUFFER_TOO_SMALL
  | OTHER_STATUS u64

text \<open>\<open>boot::AllocateType\<close>, as far as it is used, and the type every allocation is made with.\<close>

datatype alloc_type = Address u64 | MaxAddress u64

definition LOADER_DATA :: u32 where
  "LOADER_DATA = 2"

text \<open>\<open>FileInfo\<close> of a directory entry, \<open>FileType\<close>, and what \<open>Directory::read_entry\<close> returns.\<close>

record dirent =
  is_directory :: bool
  file_name :: cstr16
  file_size :: u64

datatype file_type = Dir handle | Regular handle

datatype entry_result = EntryOk "dirent option" | EntryErr status "usize option"

text \<open>Keys as the console reports them, a graphics mode, a memory descriptor.\<close>

datatype scan_code = ScanUp | ScanDown | ScanOther u16

datatype key = KeySpecial scan_code | KeyPrintable u16

datatype pixel_format = Rgb | Bgr | Bitmask | BltOnly

record gop_mode =
  gop_width :: usize
  gop_height :: usize
  gop_format :: pixel_format
  gop_stride :: usize
  gop_base :: u64

record mem_desc =
  md_type :: u32
  md_phys_start :: u64
  md_page_count :: u64

text \<open>
  The GUID of a configuration table entry, a device path as its nodes (type, sub-type, data, or
  the media file path node the crate builds from a name), and the loaded-image protocol.
\<close>

datatype guid = ACPI2_GUID | ACPI_GUID | OTHER_GUID nat

datatype dp_node = DpNode u8 u8 bytes | MediaFilePath cstr16

type_synonym device_path = "dp_node list"

record loaded_image =
  li_device :: "handle option"
  li_file_path :: "device_path option"

text \<open>
  The calls, in the order: the boot file system and files, pages, the display, the configuration
  table and leaving boot services; the console; other volumes, images and their device paths; and
  the crate's own text and device-path conversions. \<open>None\<close> of \<open>start_image\<close> is an image that
  never returns.
\<close>

record 'f firmware =
  get_image_file_system :: "'f \<Rightarrow> handle option \<times> 'f"
  open_volume :: "handle \<Rightarrow> 'f \<Rightarrow> handle option \<times> 'f"
  dir_open :: "handle \<Rightarrow> cstr16 \<Rightarrow> 'f \<Rightarrow> handle option \<times> 'f"
  into_regular_file :: "handle \<Rightarrow> 'f \<Rightarrow> handle option \<times> 'f"
  into_type :: "handle \<Rightarrow> 'f \<Rightarrow> file_type option \<times> 'f"
  get_file_size :: "handle \<Rightarrow> 'f \<Rightarrow> u64 option \<times> 'f"
  file_read :: "handle \<Rightarrow> nat \<Rightarrow> 'f \<Rightarrow> bytes option \<times> 'f"
  read_entry :: "handle \<Rightarrow> nat \<Rightarrow> 'f \<Rightarrow> entry_result \<times> 'f"
  allocate_pages :: "alloc_type \<Rightarrow> u32 \<Rightarrow> usize \<Rightarrow> 'f \<Rightarrow> u64 option \<times> 'f"
  get_gop_handle :: "'f \<Rightarrow> handle option \<times> 'f"
  open_gop :: "handle \<Rightarrow> 'f \<Rightarrow> gop_mode option \<times> 'f"
  config_table :: "'f \<Rightarrow> (guid \<times> u64) list"
  exit_boot_services :: "u32 \<Rightarrow> 'f \<Rightarrow> mem_desc list \<times> 'f"
  read_key :: "'f \<Rightarrow> key option \<times> 'f"
  current_mode :: "'f \<Rightarrow> (nat \<times> nat) option \<times> 'f"
  cursor_row :: "'f \<Rightarrow> nat \<times> 'f"
  set_cursor_position :: "nat \<Rightarrow> nat \<Rightarrow> 'f \<Rightarrow> bool \<times> 'f"
  enable_cursor :: "bool \<Rightarrow> 'f \<Rightarrow> 'f"
  print_str :: "ustr \<Rightarrow> 'f \<Rightarrow> 'f"
  stall_ms :: "nat \<Rightarrow> 'f \<Rightarrow> 'f"
  locate_file_systems :: "'f \<Rightarrow> handle list option \<times> 'f"
  open_file_system :: "handle \<Rightarrow> 'f \<Rightarrow> handle option \<times> 'f"
  open_loaded_image :: "'f \<Rightarrow> loaded_image option \<times> 'f"
  open_device_path :: "handle \<Rightarrow> 'f \<Rightarrow> device_path option \<times> 'f"
  load_image :: "device_path \<Rightarrow> 'f \<Rightarrow> (status + handle) \<times> 'f"
  start_image :: "handle \<Rightarrow> 'f \<Rightarrow> ((status + unit) \<times> 'f) option"
  cstr16_of :: "ustr \<Rightarrow> cstr16 option"
  cstr16_text :: "cstr16 \<Rightarrow> ustr"
  dp_text :: "device_path \<Rightarrow> cstr16 option"
  dp_push :: "device_path \<Rightarrow> dp_node \<Rightarrow> device_path option"
  dp_finalize :: "device_path \<Rightarrow> device_path option"

text \<open>
  The machine as the loader sees it: the firmware's state, physical memory, and the program's
  own mutable statics. \<open>ALLOC_PAGES\<close> and \<open>ALLOC_COUNT\<close> belong to \<open>elf.rs\<close>, \<open>MOD_NAMES\<close> (the
  address its 4096 bytes were loaded at) and \<open>MOD_NAMES_POS\<close> to \<open>modules.rs\<close>, \<open>INFO_AT\<close> to
  \<open>multiboot.rs\<close>.
\<close>

record 'f mach =
  fw :: 'f
  mem :: memory
  ALLOC_PAGES :: "(u64 \<times> usize) list"
  ALLOC_COUNT :: nat
  MOD_NAMES :: u64
  MOD_NAMES_POS :: nat
  INFO_AT :: usize

section \<open>What is relied on of the page allocator\<close>

text \<open>
  \<open>owned f\<close> is the set of addresses the firmware has handed out. A successful \<open>AllocatePages\<close>
  adds the pages it returns, which were free before, at the address asked for when one was;
  nothing the loader calls takes pages back. Pages are 4 KiB and page-aligned, and a range asked for with a maximum
  address ends at or below it.
\<close>

definition page_range :: "u64 \<Rightarrow> usize \<Rightarrow> u64 set" where
  "page_range p n = {x. in_range p (unat n * 4096) x}"

definition alloc_contract :: "'f firmware \<Rightarrow> ('f \<Rightarrow> u64 set) \<Rightarrow> bool" where
  "alloc_contract F owned \<longleftrightarrow>
     (\<forall>t ty n f. owned f \<subseteq> owned (snd (allocate_pages F t ty n f))) \<and>
     (\<forall>t ty n f a. fst (allocate_pages F t ty n f) = Some a \<longrightarrow>
        page_range a n \<subseteq> owned (snd (allocate_pages F t ty n f)) \<and> page_range a n \<inter> owned f = {}) \<and>
     (\<forall>a ty n f p. fst (allocate_pages F (Address a) ty n f) = Some p \<longrightarrow> p = a)"

definition max_address_contract :: "'f firmware \<Rightarrow> bool" where
  "max_address_contract F \<longleftrightarrow>
     (\<forall>a ty n f p. fst (allocate_pages F (MaxAddress a) ty n f) = Some p \<longrightarrow>
        4096 dvd unat p \<and> unat p + unat n * 4096 \<le> unat a + 1)"

lemma alloc_contract_owned:
  assumes "alloc_contract F owned" and "allocate_pages F t ty n f = (p, f')"
  shows "owned f \<subseteq> owned f'"
  using assms(1) [unfolded alloc_contract_def, THEN conjunct1, rule_format, of f t ty n] assms(2)
  by simp

lemma alloc_contract_new:
  assumes "alloc_contract F owned" and "allocate_pages F t ty n f = (Some p, f')"
  shows "page_range p n \<subseteq> owned f' \<and> page_range p n \<inter> owned f = {}"
  using assms(1) [unfolded alloc_contract_def, THEN conjunct2, THEN conjunct1, rule_format,
      of t ty n f p] assms(2)
  by simp

lemma alloc_contract_at:
  assumes "alloc_contract F owned" and "allocate_pages F (Address a) ty n f = (Some p, f')"
  shows "p = a"
  using assms(1) [unfolded alloc_contract_def, THEN conjunct2, THEN conjunct2, rule_format,
      of a ty n f p] assms(2)
  by simp

lemma alloc_contract_range:
  assumes "alloc_contract F owned" and "allocate_pages F (Address a) ty n f = (Some p, f')"
  shows "page_range a n \<subseteq> owned f'"
  using alloc_contract_at [OF assms] alloc_contract_new [OF assms] by simp

text \<open>The file calls hand out no pages and take none back.\<close>

definition files_contract :: "'f firmware \<Rightarrow> ('f \<Rightarrow> u64 set) \<Rightarrow> bool" where
  "files_contract F owned \<longleftrightarrow>
     (\<forall>f. owned (snd (get_image_file_system F f)) = owned f) \<and>
     (\<forall>h f. owned (snd (open_volume F h f)) = owned f) \<and>
     (\<forall>h p f. owned (snd (dir_open F h p f)) = owned f) \<and>
     (\<forall>h f. owned (snd (into_regular_file F h f)) = owned f) \<and>
     (\<forall>h f. owned (snd (into_type F h f)) = owned f) \<and>
     (\<forall>h f. owned (snd (get_file_size F h f)) = owned f) \<and>
     (\<forall>h n f. owned (snd (file_read F h n f)) = owned f) \<and>
     (\<forall>h n f. owned (snd (read_entry F h n f)) = owned f)"

lemma owned_step: "r = (a, f1) \<Longrightarrow> owned (snd r) = owned f \<Longrightarrow> owned f1 = owned f"
  by simp

lemma files_contractD:
  assumes "files_contract F owned"
  shows "get_image_file_system F f = (a, f1) \<Longrightarrow> owned f1 = owned f"
    and "open_volume F h f = (a, f1) \<Longrightarrow> owned f1 = owned f"
    and "dir_open F h p f = (a, f1) \<Longrightarrow> owned f1 = owned f"
    and "into_regular_file F h f = (a, f1) \<Longrightarrow> owned f1 = owned f"
    and "into_type F h f = (t, f1) \<Longrightarrow> owned f1 = owned f"
    and "get_file_size F h f = (len, f1) \<Longrightarrow> owned f1 = owned f"
    and "file_read F h n f = (bs, f1) \<Longrightarrow> owned f1 = owned f"
    and "read_entry F h n f = (e, f1) \<Longrightarrow> owned f1 = owned f"
  by (erule owned_step, simp add: assms [unfolded files_contract_def])+

lemma max_address_bound:
  assumes "max_address_contract F" and "allocate_pages F (MaxAddress a) ty n f = (Some p, f')"
  shows "4096 dvd unat p \<and> unat p + unat n * 4096 \<le> unat a + 1"
  using assms(1) [unfolded max_address_contract_def, rule_format, of a ty n f p] assms(2)
  by simp

end
