(* ===== verification/Elf.thy ===== *)
theory Elf
  imports Uefi
begin

text \<open>
  The file formats of \<open>elf.rs\<close> and \<open>detect_multiboot_version\<close>, whose two scans share the locale
  \<open>header_scan\<close>. Segments are placed in \<open>ElfSegment\<close>, kernels loaded in \<open>ElfKernel\<close>.
\<close>

section \<open>Constants and file structures\<close>

definition EI_NIDENT :: nat where "EI_NIDENT = 16"
definition ET_EXEC :: u16 where "ET_EXEC = 2"
definition EM_386 :: u16 where "EM_386 = 3"
definition EM_X86_64 :: u16 where "EM_X86_64 = 62"
definition PT_LOAD :: u32 where "PT_LOAD = 1"
definition ELFCLASS32 :: u8 where "ELFCLASS32 = 1"
definition ELFCLASS64 :: u8 where "ELFCLASS64 = 2"
definition MB1_HEADER_MAGIC :: u32 where "MB1_HEADER_MAGIC = 0x1BADB002"
definition MB2_HEADER_MAGIC :: u32 where "MB2_HEADER_MAGIC = 0xE85250D6"

lemmas elf_consts = EI_NIDENT_def ET_EXEC_def EM_386_def EM_X86_64_def PT_LOAD_def
  ELFCLASS32_def ELFCLASS64_def MB1_HEADER_MAGIC_def MB2_HEADER_MAGIC_def

datatype boot_mode = Protected32 | Long64

record kernel_info =
  entry_point :: u64
  mb_version :: u32
  boot_mode :: boot_mode

record elf32_ehdr =
  e32_ident :: bytes
  e32_type :: u16
  e32_machine :: u16
  e32_version :: u32
  e32_entry :: u32
  e32_phoff :: u32
  e32_shoff :: u32
  e32_flags :: u32
  e32_ehsize :: u16
  e32_phentsize :: u16
  e32_phnum :: u16
  e32_shentsize :: u16
  e32_shnum :: u16
  e32_shstrndx :: u16

record elf32_phdr =
  p32_type :: u32
  p32_offset :: u32
  p32_vaddr :: u32
  p32_paddr :: u32
  p32_filesz :: u32
  p32_memsz :: u32
  p32_flags :: u32
  p32_align :: u32

record elf64_ehdr =
  e64_ident :: bytes
  e64_type :: u16
  e64_machine :: u16
  e64_version :: u32
  e64_entry :: u64
  e64_phoff :: u64
  e64_shoff :: u64
  e64_flags :: u32
  e64_ehsize :: u16
  e64_phentsize :: u16
  e64_phnum :: u16
  e64_shentsize :: u16
  e64_shnum :: u16
  e64_shstrndx :: u16

record elf64_phdr =
  p64_type :: u32
  p64_flags :: u32
  p64_offset :: u64
  p64_vaddr :: u64
  p64_paddr :: u64
  p64_filesz :: u64
  p64_memsz :: u64
  p64_align :: u64

text \<open>\<open>ptr::read_unaligned\<close> of the packed structures: each field at its offset, little-endian.\<close>

definition field16 :: "bytes \<Rightarrow> nat \<Rightarrow> u16" where
  "field16 b k = of_le (slice b k 2)"

definition field32 :: "bytes \<Rightarrow> nat \<Rightarrow> u32" where
  "field32 b k = of_le (slice b k 4)"

definition field64 :: "bytes \<Rightarrow> nat \<Rightarrow> u64" where
  "field64 b k = of_le (slice b k 8)"

definition SIZEOF_EHDR32 :: nat where "SIZEOF_EHDR32 = 52"
definition SIZEOF_PHDR32 :: nat where "SIZEOF_PHDR32 = 32"
definition SIZEOF_EHDR64 :: nat where "SIZEOF_EHDR64 = 64"
definition SIZEOF_PHDR64 :: nat where "SIZEOF_PHDR64 = 56"

lemmas elf_sizes = SIZEOF_EHDR32_def SIZEOF_PHDR32_def SIZEOF_EHDR64_def SIZEOF_PHDR64_def

definition read_ehdr32 :: "bytes \<Rightarrow> elf32_ehdr" where
  "read_ehdr32 b = \<lparr>e32_ident = slice b 0 16, e32_type = field16 b 16, e32_machine = field16 b 18,
     e32_version = field32 b 20, e32_entry = field32 b 24, e32_phoff = field32 b 28,
     e32_shoff = field32 b 32, e32_flags = field32 b 36, e32_ehsize = field16 b 40,
     e32_phentsize = field16 b 42, e32_phnum = field16 b 44, e32_shentsize = field16 b 46,
     e32_shnum = field16 b 48, e32_shstrndx = field16 b 50\<rparr>"

definition read_phdr32 :: "bytes \<Rightarrow> nat \<Rightarrow> elf32_phdr" where
  "read_phdr32 b k = \<lparr>p32_type = field32 b k, p32_offset = field32 b (k + 4),
     p32_vaddr = field32 b (k + 8), p32_paddr = field32 b (k + 12),
     p32_filesz = field32 b (k + 16), p32_memsz = field32 b (k + 20),
     p32_flags = field32 b (k + 24), p32_align = field32 b (k + 28)\<rparr>"

definition read_ehdr64 :: "bytes \<Rightarrow> elf64_ehdr" where
  "read_ehdr64 b = \<lparr>e64_ident = slice b 0 16, e64_type = field16 b 16, e64_machine = field16 b 18,
     e64_version = field32 b 20, e64_entry = field64 b 24, e64_phoff = field64 b 32,
     e64_shoff = field64 b 40, e64_flags = field32 b 48, e64_ehsize = field16 b 52,
     e64_phentsize = field16 b 54, e64_phnum = field16 b 56, e64_shentsize = field16 b 58,
     e64_shnum = field16 b 60, e64_shstrndx = field16 b 62\<rparr>"

definition read_phdr64 :: "bytes \<Rightarrow> nat \<Rightarrow> elf64_phdr" where
  "read_phdr64 b k = \<lparr>p64_type = field32 b k, p64_flags = field32 b (k + 4),
     p64_offset = field64 b (k + 8), p64_vaddr = field64 b (k + 16),
     p64_paddr = field64 b (k + 24), p64_filesz = field64 b (k + 32),
     p64_memsz = field64 b (k + 40), p64_align = field64 b (k + 48)\<rparr>"

section \<open>Detecting a Multiboot header\<close>

text \<open>The two loops of \<open>detect_multiboot_version\<close>, each from \<open>off\<close> up to its limit.\<close>

definition mb2_header_at :: "bytes \<Rightarrow> nat \<Rightarrow> bool" where
  "mb2_header_at b off \<longleftrightarrow>
     (let magic = field32 b off; arch = field32 b (off + 4); hlen = field32 b (off + 8);
          chksum = field32 b (off + 12)
      in magic = MB2_HEADER_MAGIC \<and> magic + arch + hlen + chksum = 0)"

definition mb1_header_at :: "bytes \<Rightarrow> nat \<Rightarrow> bool" where
  "mb1_header_at b off \<longleftrightarrow>
     (let magic = field32 b off; flags = field32 b (off + 4); chksum = field32 b (off + 8)
      in magic = MB1_HEADER_MAGIC \<and> magic + flags + chksum = 0)"

function mb2_scan :: "bytes \<Rightarrow> nat \<Rightarrow> nat \<Rightarrow> bool" where
  "mb2_scan b lim off =
     (if off + 16 \<le> lim then (if mb2_header_at b off then True else mb2_scan b lim (off + 8))
      else False)"
  by pat_completeness auto
termination
  by (relation "measure (\<lambda>(b, lim, off). lim - off)") auto

function mb1_scan :: "bytes \<Rightarrow> nat \<Rightarrow> nat \<Rightarrow> bool" where
  "mb1_scan b lim off =
     (if off + 12 \<le> lim then (if mb1_header_at b off then True else mb1_scan b lim (off + 4))
      else False)"
  by pat_completeness auto
termination
  by (relation "measure (\<lambda>(b, lim, off). lim - off)") auto

declare mb2_scan.simps [simp del] mb1_scan.simps [simp del]

definition detect_multiboot_version :: "bytes \<Rightarrow> u32" where
  "detect_multiboot_version b =
     (if mb2_scan b (min (length b) 32768) 0 then 2
      else if mb1_scan b (min (length b) 8192) 0 then 1
      else 0)"

locale header_scan =
  fixes scan :: "bytes \<Rightarrow> nat \<Rightarrow> nat \<Rightarrow> bool"
    and header_at :: "bytes \<Rightarrow> nat \<Rightarrow> bool"
    and stride :: nat
    and size :: nat
  assumes stride_pos: "0 < stride"
    and scan_step: "scan b lim off =
      (if off + size \<le> lim then (if header_at b off then True else scan b lim (off + stride))
       else False)"
begin

lemma scan_from_iff:
  "scan b lim off \<longleftrightarrow> (\<exists>k. off + k * stride + size \<le> lim \<and> header_at b (off + k * stride))"
proof (induction "lim - off" arbitrary: off rule: less_induct)
  case less
  show ?case
  proof (cases "off + size \<le> lim \<and> \<not> header_at b off \<and> lim \<noteq> off")
    case True
    with stride_pos have "lim - (off + stride) < lim - off" by linarith
    note IH = less [OF this]
    have "scan b lim off = scan b lim (off + stride)"
      using True by (subst scan_step) simp
    also have "\<dots> \<longleftrightarrow> (\<exists>k. off + Suc k * stride + size \<le> lim \<and> header_at b (off + Suc k * stride))"
      unfolding IH by (simp add: algebra_simps)
    also have "\<dots> \<longleftrightarrow> (\<exists>k. off + k * stride + size \<le> lim \<and> header_at b (off + k * stride))"
      using True by (metis add.right_neutral mult_0 not0_implies_Suc)
    finally show ?thesis .
  next
    case False
    then consider "\<not> off + size \<le> lim" | "off + size \<le> lim" "header_at b off"
      | "size = 0" "lim = off" "\<not> header_at b off" by force
    then show ?thesis
    proof cases
      case 1
      then show ?thesis by (subst scan_step) auto
    next
      case 2
      then show ?thesis by (subst scan_step) (auto intro: exI [of _ 0])
    next
      case 3
      then have "scan b lim off = scan b lim (off + stride)"
        by (subst scan_step) simp
      moreover have "\<not> scan b lim (off + stride)"
        using 3 stride_pos by (subst scan_step) simp
      ultimately show ?thesis using 3 stride_pos by auto
    qed
  qed
qed

lemma scan_iff: "scan b lim 0 \<longleftrightarrow> (\<exists>k. k * stride + size \<le> lim \<and> header_at b (k * stride))"
  using scan_from_iff [of b lim 0] by simp

lemma scan_found: "k * stride + size \<le> lim \<Longrightarrow> header_at b (k * stride) \<Longrightarrow> scan b lim 0"
  unfolding scan_iff by blast

end

interpretation mb2: header_scan mb2_scan mb2_header_at 8 16
  by unfold_locales (simp, rule mb2_scan.simps)

interpretation mb1: header_scan mb1_scan mb1_header_at 4 12
  by unfold_locales (simp, rule mb1_scan.simps)

end
