(* ===== verification/DemoFirmware.thy ===== *)
theory DemoFirmware
  imports Uefi
begin

text \<open>
  A concrete firmware that keeps the contracts of \<open>Uefi\<close>: the allocator grants ranges that do not
  meet those it granted before, from the top of the allowed range downwards when no address is
  asked for; every file call fails or finds nothing, and is replaced field by field where a
  witness needs an answer.
\<close>

type_synonym grants = "(u64 \<times> usize) list"

definition granted :: "grants \<Rightarrow> u64 set" where
  "granted f = (\<Union>(b, n) \<in> set f. page_range b n)"

definition meets :: "u64 \<Rightarrow> usize \<Rightarrow> u64 \<times> usize \<Rightarrow> bool" where
  "meets a n r \<longleftrightarrow> in_range a (unat n * 4096) (fst r) \<or> in_range (fst r) (unat (snd r) * 4096) a"

definition grant_at :: "u64 \<Rightarrow> usize \<Rightarrow> grants \<Rightarrow> u64 option \<times> grants" where
  "grant_at a n f = (if list_ex (meets a n) f then (None, f) else (Some a, (a, n) # f))"

fun grant :: "alloc_type \<Rightarrow> u32 \<Rightarrow> usize \<Rightarrow> grants \<Rightarrow> u64 option \<times> grants" where
  "grant (Address a) ty n f = grant_at a n f"
| "grant (MaxAddress a) ty n f =
     (let top = foldr (\<lambda>(b, _) t. min (unat b) t) f (min (2 ^ 32) (unat a + 1)) div 4096 * 4096
      in if unat n * 4096 \<le> top then grant_at (of_nat (top - unat n * 4096)) n f else (None, f))"

definition demo_fw :: "grants firmware" where
  "demo_fw = \<lparr>get_image_file_system = (\<lambda>f. (Some 0, f)), open_volume = (\<lambda>_ f. (Some 1, f)),
     dir_open = (\<lambda>_ _ f. (None, f)), into_regular_file = (\<lambda>h f. (Some h, f)),
     into_type = (\<lambda>h f. (Some (Regular h), f)), get_file_size = (\<lambda>_ f. (None, f)),
     file_read = (\<lambda>_ _ f. (None, f)), read_entry = (\<lambda>_ _ f. (EntryOk None, f)),
     allocate_pages = grant,
     get_gop_handle = (\<lambda>f. (None, f)), open_gop = (\<lambda>_ f. (None, f)), config_table = (\<lambda>_. []),
     exit_boot_services = (\<lambda>_ f. ([], f)),
     read_key = (\<lambda>f. (None, f)), current_mode = (\<lambda>f. (None, f)), cursor_row = (\<lambda>f. (0, f)),
     set_cursor_position = (\<lambda>_ _ f. (False, f)), enable_cursor = (\<lambda>_ f. f),
     print_str = (\<lambda>_ f. f), stall_ms = (\<lambda>_ f. f),
     locate_file_systems = (\<lambda>f. (None, f)), open_file_system = (\<lambda>_ f. (None, f)),
     open_loaded_image = (\<lambda>f. (None, f)), open_device_path = (\<lambda>_ f. (None, f)),
     load_image = (\<lambda>_ f. (Inl NOT_FOUND, f)), start_image = (\<lambda>_ f. Some (Inr (), f)),
     cstr16_of = (\<lambda>s. if list_all (\<lambda>c. 0 < c \<and> c < 0x10000) s then Some (map of_nat s) else None),
     cstr16_text = map unat, dp_text = (\<lambda>_. None), dp_push = (\<lambda>p n. Some (p @ [n])),
     dp_finalize = Some\<rparr>"

text \<open>A file that any path opens, and the machine before the loader has done anything.\<close>

definition demo_fw_file :: "bytes \<Rightarrow> grants firmware" where
  "demo_fw_file bs = demo_fw\<lparr>dir_open := (\<lambda>_ _ f. (Some 2, f)),
     get_file_size := (\<lambda>_ f. (Some (of_nat (length bs)), f)),
     file_read := (\<lambda>_ n f. (Some (take n bs), f))\<rparr>"

definition demo_mach :: "grants mach" where
  "demo_mach = \<lparr>fw = [], mem = (\<lambda>_. 0), ALLOC_PAGES = replicate 32 (0, 0), ALLOC_COUNT = 0,
     MOD_NAMES = 0x7F000000, MOD_NAMES_POS = 0, INFO_AT = 0\<rparr>"

lemma in_both_ranges:
  assumes "in_range a n x" and "in_range b k x"
  shows "in_range a n b \<or> in_range b k a"
proof (cases "x - a \<le> x - b")
  case True
  have "unat (x - b - (x - a)) = unat (x - b) - unat (x - a)"
    using True by (rule unat_sub)
  moreover have "x - b - (x - a) = a - b" by simp
  ultimately have "unat (a - b) \<le> unat (x - b)" by simp
  with assms(2) show ?thesis by (simp add: in_range_def)
next
  case False
  then have "unat (x - a - (x - b)) = unat (x - a) - unat (x - b)"
    by (intro unat_sub) simp
  moreover have "x - a - (x - b) = b - a" by simp
  ultimately have "unat (b - a) \<le> unat (x - a)" by simp
  with assms(1) show ?thesis by (simp add: in_range_def)
qed

lemma not_meets_disjoint: "\<not> meets a n r \<Longrightarrow> page_range a n \<inter> page_range (fst r) (snd r) = {}"
  using in_both_ranges unfolding meets_def page_range_def by blast

lemma grant_at_spec:
  assumes "grant_at a n f = (p, f')"
  shows "granted f \<subseteq> granted f' \<and>
    (\<forall>b. p = Some b \<longrightarrow> b = a \<and> page_range b n \<subseteq> granted f' \<and> page_range b n \<inter> granted f = {})"
proof (cases "list_ex (meets a n) f")
  case False
  then have "page_range a n \<inter> page_range (fst r) (snd r) = {}" if "r \<in> set f" for r
    using that by (intro not_meets_disjoint) (auto simp: list_ex_iff)
  then have "page_range a n \<inter> granted f = {}" by (fastforce simp: granted_def)
  with False assms show ?thesis by (auto simp: grant_at_def granted_def)
qed (use assms in \<open>auto simp: grant_at_def\<close>)

lemma grant_spec:
  assumes "grant t ty n f = (p, f')"
  shows "granted f \<subseteq> granted f'"
    and "p = Some b \<Longrightarrow> page_range b n \<subseteq> granted f' \<and> page_range b n \<inter> granted f = {}"
    and "p = Some b \<Longrightarrow> t = Address a \<Longrightarrow> b = a"
proof -
  have "(p = None \<and> f' = f) \<or> (\<exists>a. grant_at a n f = (p, f') \<and> (\<forall>x. t = Address x \<longrightarrow> x = a))"
    using assms by (cases t) (simp_all add: Let_def split: if_splits, blast+)
  then consider "p = None" "f' = f" | x where "grant_at x n f = (p, f')" "\<forall>y. t = Address y \<longrightarrow> y = x"
    by blast
  then have *: "granted f \<subseteq> granted f' \<and> (\<forall>b. p = Some b \<longrightarrow>
      page_range b n \<subseteq> granted f' \<and> page_range b n \<inter> granted f = {} \<and> (\<forall>a. t = Address a \<longrightarrow> b = a))"
  proof cases
    case 2
    with grant_at_spec [OF 2(1)] show ?thesis by blast
  qed simp
  show "granted f \<subseteq> granted f'" using * by blast
  show "p = Some b \<Longrightarrow> page_range b n \<subseteq> granted f' \<and> page_range b n \<inter> granted f = {}"
    using * by blast
  show "p = Some b \<Longrightarrow> t = Address a \<Longrightarrow> b = a" using * by blast
qed

lemma grant_contract: "alloc_contract demo_fw granted"
proof -
  have "granted f \<subseteq> granted (snd (grant t ty n f))" for t ty n f
    by (rule grant_spec(1) [OF prod.collapse [symmetric]])
  moreover have "page_range a n \<subseteq> granted (snd (grant t ty n f)) \<and> page_range a n \<inter> granted f = {}"
    if "fst (grant t ty n f) = Some a" for t ty n f a
    by (rule grant_spec(2) [OF prod.collapse [symmetric] that])
  moreover have "p = a" if "fst (grant (Address a) ty n f) = Some p" for a ty n f p
    by (rule grant_spec(3) [OF prod.collapse [symmetric] that refl])
  ultimately show ?thesis unfolding alloc_contract_def demo_fw_def by simp
qed

lemma grant_top_le:
  "foldr (\<lambda>(b, _) t. min (unat b) t) f k div 4096 * 4096 \<le> (k :: nat)"
proof -
  have "foldr (\<lambda>(b, _) t. min (unat b) t) f k \<le> k" by (induction f) auto
  then show ?thesis by simp
qed

lemma grant_max_contract: "max_address_contract demo_fw"
proof -
  have "4096 dvd unat p \<and> unat p + unat n * 4096 \<le> unat a + 1"
    if g: "fst (grant (MaxAddress a) ty n f) = Some p" for a ty n f p
  proof -
    define top where
      "top = foldr (\<lambda>(b, _) t. min (unat b) t) f (min (2 ^ 32) (unat a + 1)) div 4096 * 4096"
    have "top \<le> min (2 ^ 32) (unat a + 1)" unfolding top_def by (rule grant_top_le)
    then have le: "top \<le> 2 ^ 32" "top \<le> unat a + 1" by simp_all
    have d: "4096 dvd top" by (simp add: top_def)
    from g have p: "unat n * 4096 \<le> top" "p = of_nat (top - unat n * 4096)"
      by (auto simp: Let_def grant_at_def top_def split: if_splits)
    have "unat p = top - unat n * 4096"
      unfolding p(2) using le(1) by (intro unat_offset) simp
    then show ?thesis using p(1) le(2) d by (simp add: dvd_diff_nat)
  qed
  then show ?thesis unfolding max_address_contract_def demo_fw_def by simp
qed

lemma demo_files_contract: "files_contract demo_fw owned"
  by (simp add: files_contract_def demo_fw_def)

text \<open>Replacing file calls that leave the state alone keeps all three contracts.\<close>

lemma demo_file_contracts:
  "alloc_contract (demo_fw_file bs) granted" "max_address_contract (demo_fw_file bs)"
  "files_contract (demo_fw_file bs) owned"
  using grant_contract grant_max_contract
  by (simp_all add: demo_fw_file_def alloc_contract_def max_address_contract_def files_contract_def
      demo_fw_def)

end
