(* ===== verification/ElfSegment.thy ===== *)
theory ElfSegment
  imports Elf DemoFirmware
begin

text \<open>
  \<open>load_segment\<close> of \<open>elf.rs\<close>: the table of pages already claimed, the loops that ask the firmware
  for the rest, and the copy. The loops are \<open>partial_function\<close>s, so that not returning is \<open>None\<close>;
  \<open>claim_pages_rule\<close> shows that they always return and is the induction rule for what they do.
\<close>

section \<open>Pages already claimed\<close>

definition record_covers :: "u64 \<Rightarrow> u64 \<times> usize \<Rightarrow> bool" where
  "record_covers page r = (case r of (alloc_base, alloc_pages) \<Rightarrow>
     alloc_pages \<noteq> 0 \<and> alloc_base \<le> page \<and> page < alloc_base + alloc_pages * 4096)"

definition page_allocated :: "'f mach \<Rightarrow> u64 \<Rightarrow> bool" where
  "page_allocated st page = list_ex (\<lambda>i. record_covers page (ALLOC_PAGES st ! i)) [0..<ALLOC_COUNT st]"

definition record_allocation :: "'f mach \<Rightarrow> u64 \<Rightarrow> usize \<Rightarrow> 'f mach" where
  "record_allocation st base num_pages =
     (if ALLOC_COUNT st < 32
      then st\<lparr>ALLOC_PAGES := (ALLOC_PAGES st)[ALLOC_COUNT st := (base, num_pages)],
              ALLOC_COUNT := ALLOC_COUNT st + 1\<rparr>
      else st)"

section \<open>Loading a segment\<close>

partial_function (option) segment_run ::
    "'f mach \<Rightarrow> u64 \<Rightarrow> u64 \<Rightarrow> usize \<Rightarrow> usize option" where
  "segment_run st page end_at run =
     (if page + run * 4096 < end_at \<and> \<not> page_allocated st (page + run * 4096)
      then segment_run st page end_at (run + 1)
      else Some run)"

partial_function (option) claim_pages ::
    "'f firmware \<Rightarrow> u64 \<Rightarrow> u64 \<Rightarrow> 'f mach \<Rightarrow> (bool \<times> 'f mach) option" where
  "claim_pages F end_at page st =
     (if page < end_at then
        (if \<not> page_allocated st page then
           Option.bind (segment_run st page end_at 0) (\<lambda>run.
             case allocate_pages F (Address page) LOADER_DATA run (fw st) of
               (None, f) \<Rightarrow> Some (False, st\<lparr>fw := f\<rparr>)
             | (Some _, f) \<Rightarrow>
                 claim_pages F end_at (page + run * 4096)
                   (record_allocation (st\<lparr>fw := f\<rparr>) page run))
         else claim_pages F end_at (page + 4096) st)
      else Some (True, st))"

definition place_segment :: "memory \<Rightarrow> u64 \<Rightarrow> u64 \<Rightarrow> bytes \<Rightarrow> u64 \<Rightarrow> u64 \<Rightarrow> memory" where
  "place_segment m paddr memsz file_buf offset filesz =
     (let m' = mem_write m paddr (slice file_buf (unat offset) (unat filesz))
      in if filesz < memsz then mem_fill m' (paddr + filesz) (unat (memsz - filesz)) 0 else m')"

definition load_segment ::
    "'f firmware \<Rightarrow> u64 \<Rightarrow> u64 \<Rightarrow> bytes \<Rightarrow> u64 \<Rightarrow> u64 \<Rightarrow> 'f mach \<Rightarrow> (bool \<times> 'f mach) option" where
  "load_segment F paddr memsz file_buf offset filesz st =
     (if memsz < filesz then Some (False, st)
      else if (case checked_add offset filesz of
                 Some e \<Rightarrow> \<not> e \<le> of_nat (length file_buf) | None \<Rightarrow> True)
      then Some (False, st)
      else if checked_add paddr memsz = None then Some (False, st)
      else
        (let page_base = paddr AND NOT 0xFFF;
             page_offset = paddr - page_base;
             total_size = page_offset + memsz;
             num_pages = (total_size + 4095) div 4096
         in Option.bind (claim_pages F (page_base + num_pages * 4096) page_base st) (\<lambda>(ok, st').
              if ok
              then Some (True, st'\<lparr>mem := place_segment (mem st') paddr memsz file_buf offset filesz\<rparr>)
              else Some (False, st'))))"

section \<open>Page arithmetic\<close>

definition page_aligned :: "u64 \<Rightarrow> bool" where
  "page_aligned p \<longleftrightarrow> 4096 dvd unat p"

lemma and_not_mask: "(w :: 'a::len word) AND NOT (mask n) = w - take_bit n w"
proof -
  have "w AND NOT (mask n) = push_bit n (drop_bit n w)"
    by (rule bit_word_eqI) (auto simp: bit_simps)
  then show ?thesis by (simp add: diff_eq_eq [symmetric] bits_ident eq_diff_eq)
qed

lemma unat_page_base: "unat (p AND NOT 0xFFF :: u64) = unat p div 4096 * 4096"
proof -
  have m: "(0xFFF :: u64) = mask 12" by (simp add: mask_eq_exp_minus_1)
  have t: "unat (take_bit 12 p) = unat p mod 4096"
    by (simp add: unat_mod_distrib take_bit_eq_mod)
  then have "unat (take_bit 12 p) \<le> unat p" by simp
  then have "unat (p - take_bit 12 p) = unat p - unat p mod 4096"
    using t by (simp add: unat_sub word_le_nat_alt)
  then show ?thesis unfolding m and_not_mask by (simp add: minus_mod_eq_div_mult)
qed

lemma page_aligned_base: "page_aligned (p AND NOT 0xFFF)"
  unfolding page_aligned_def unat_page_base by simp

lemma dvd_4096_mod: "4096 dvd (n :: nat) \<Longrightarrow> 4096 dvd n mod 2 ^ 64"
  by (simp add: dvd_mod)

lemma page_aligned_add: "page_aligned a \<Longrightarrow> page_aligned b \<Longrightarrow> page_aligned (a + b)"
  unfolding page_aligned_def unat_word_ariths by (rule dvd_mod) simp_all

lemma page_aligned_pages: "page_aligned (n * 4096)"
  unfolding page_aligned_def unat_word_ariths by (rule dvd_mod) simp_all

lemma page_aligned_4096: "page_aligned 4096"
  by (simp add: page_aligned_def)

lemma page_step:
  assumes "page_aligned p" and "page_aligned e" and "unat p + k * 4096 < unat e"
  shows "unat p + k * 4096 + 4096 \<le> unat e"
proof -
  from assms obtain a b where "unat p = 4096 * a" "unat e = 4096 * b"
    unfolding page_aligned_def by (auto elim!: dvdE)
  moreover from this assms(3) have "4096 * (a + k) < 4096 * b" by (simp add: algebra_simps)
  then have "a + k + 1 \<le> b" by simp
  then have "4096 * (a + k + 1) \<le> 4096 * b" by (rule mult_le_mono2)
  ultimately show ?thesis by (simp add: algebra_simps)
qed

lemma unat_page_plus:
  assumes "unat p + unat k * 4096 \<le> unat (e :: u64)"
  shows "unat (p + k * 4096 :: u64) = unat p + unat k * 4096"
proof -
  have e: "unat e < 2 ^ 64" using unat_u64_bound [of e] by simp
  have "unat (k * 4096) = unat k * 4096"
    using assms e unat_mult_no_overflow [of k "4096"] by simp
  with assms e show ?thesis using unat_add_no_overflow [of p "k * 4096"] by simp
qed

section \<open>The loops return\<close>

lemma segment_run_total:
  assumes "page_aligned page" and "page_aligned e"
    and "unat page + unat run * 4096 \<le> unat e"
  shows "\<exists>r. segment_run st page e run = Some r \<and> run \<le> r \<and> unat page + unat r * 4096 \<le> unat e \<and>
    (\<forall>k. run \<le> k \<longrightarrow> k < r \<longrightarrow> \<not> page_allocated st (page + k * 4096))"
  using assms(3)
proof (induction "unat e - (unat page + unat run * 4096)" arbitrary: run rule: less_induct)
  case less
  note at = unat_page_plus [OF less.prems]
  show ?case
  proof (cases "page + run * 4096 < e \<and> \<not> page_allocated st (page + run * 4096)")
    case True
    then have lt: "unat page + unat run * 4096 < unat e"
      using at by (simp add: word_less_nat_alt)
    then have "unat run < 2 ^ 64 - 1"
      using unat_u64_bound [of e] by simp
    then have r1: "unat (run + 1) = unat run + 1"
      using unat_add_no_overflow [of run 1] by simp
    have le: "unat page + unat (run + 1) * 4096 \<le> unat e"
      using page_step [OF assms(1,2) lt] r1 by simp
    have "unat e - (unat page + unat (run + 1) * 4096) < unat e - (unat page + unat run * 4096)"
      using lt r1 by simp
    from less.hyps [OF this le] obtain r where
      r: "segment_run st page e (run + 1) = Some r" "run + 1 \<le> r"
        "unat page + unat r * 4096 \<le> unat e"
        "\<forall>k. run + 1 \<le> k \<longrightarrow> k < r \<longrightarrow> \<not> page_allocated st (page + k * 4096)"
      by blast
    have "run \<le> r" using r(2) r1 by (simp add: word_le_nat_alt)
    moreover have "\<forall>k. run \<le> k \<longrightarrow> k < r \<longrightarrow> \<not> page_allocated st (page + k * 4096)"
    proof (intro allI impI)
      fix k assume k: "run \<le> k" "k < r"
      show "\<not> page_allocated st (page + k * 4096)"
      proof (cases "k = run")
        case False
        then have "unat k \<noteq> unat run" by (simp add: word_unat_eq_iff)
        with k(1) r1 have "run + 1 \<le> k"
          by (simp add: word_le_nat_alt)
        with k r(4) show ?thesis by blast
      qed (use True in simp)
    qed
    moreover have "segment_run st page e run = Some r"
      using True r(1) by (subst segment_run.simps) simp
    ultimately show ?thesis using r(3) by blast
  next
    case False
    then have "segment_run st page e run = Some run"
      by (subst segment_run.simps) auto
    with less.prems show ?thesis by auto
  qed
qed

text \<open>
  One rule for everything \<open>claim_pages\<close> does from a page-aligned start: it returns, and a property
  of its result that holds at the end, holds where the firmware refuses, and is carried back over
  a claimed run and over a page already claimed, holds of the result.
\<close>

lemma claim_pages_rule:
  assumes al: "page_aligned page" "page_aligned e"
    and fin: "\<And>st page. \<not> page < e \<Longrightarrow> P page st (True, st)"
    and refused: "\<And>st page run f. page_aligned page \<Longrightarrow> page < e \<Longrightarrow>
      allocate_pages F (Address page) LOADER_DATA run (fw st) = (None, f) \<Longrightarrow>
      P page st (False, st\<lparr>fw := f\<rparr>)"
    and claimed: "\<And>st page run a f r. page_aligned page \<Longrightarrow> 0 < unat run \<Longrightarrow>
      unat page + unat run * 4096 \<le> unat e \<Longrightarrow>
      (\<forall>k < run. \<not> page_allocated st (page + k * 4096)) \<Longrightarrow>
      allocate_pages F (Address page) LOADER_DATA run (fw st) = (Some a, f) \<Longrightarrow>
      P (page + run * 4096) (record_allocation (st\<lparr>fw := f\<rparr>) page run) r \<Longrightarrow> P page st r"
    and skipped: "\<And>st page r. page_aligned page \<Longrightarrow> page < e \<Longrightarrow> page_allocated st page \<Longrightarrow>
      unat (page + 4096) = unat page + 4096 \<Longrightarrow> P (page + 4096) st r \<Longrightarrow> P page st r"
  shows "\<exists>r. claim_pages F e page st = Some r \<and> P page st r"
  using al(1)
proof (induction "unat e - unat page" arbitrary: page st rule: less_induct)
  case less
  consider "\<not> page < e" | "page < e" "page_allocated st page" | "page < e" "\<not> page_allocated st page"
    by blast
  then show ?case
  proof cases
    case 1
    then show ?thesis by (subst claim_pages.simps) (auto intro: fin)
  next
    case 2
    then have lt: "unat page < unat e" by (simp add: word_less_nat_alt)
    have le: "unat page + unat (1 :: u64) * 4096 \<le> unat e"
      using page_step [OF less.prems al(2), of 0] lt by simp
    from unat_page_plus [OF le] have n: "unat (page + 4096) = unat page + 4096" by simp
    then have "unat e - unat (page + 4096) < unat e - unat page" using lt by simp
    from less.hyps [OF this page_aligned_add [OF less.prems page_aligned_4096]] obtain r
      where "claim_pages F e (page + 4096) st = Some r" "P (page + 4096) st r" by blast
    with 2 n show ?thesis by (subst claim_pages.simps) (auto intro: skipped less.prems)
  next
    case 3
    then have lt: "unat page < unat e" by (simp add: word_less_nat_alt)
    obtain run where run: "segment_run st page e 0 = Some run"
        "unat page + unat run * 4096 \<le> unat e"
        "\<forall>k. 0 \<le> k \<longrightarrow> k < run \<longrightarrow> \<not> page_allocated st (page + k * 4096)"
      using segment_run_total [OF less.prems al(2), of 0 st] lt by auto
    have pos: "0 < unat run"
    proof (rule ccontr)
      assume "\<not> 0 < unat run"
      then have "run = 0" by (simp add: unat_eq_zero)
      have "segment_run st page e 0 = segment_run st page e 1"
        using 3 by (subst segment_run.simps) simp
      moreover have "unat page + unat (1 :: u64) * 4096 \<le> unat e"
        using page_step [OF less.prems al(2), of 0] lt by simp
      ultimately show False
        using segment_run_total [OF less.prems al(2), of 1 st] run(1) \<open>run = 0\<close> by auto
    qed
    obtain p f where alloc: "allocate_pages F (Address page) LOADER_DATA run (fw st) = (p, f)"
      by force
    show ?thesis
    proof (cases p)
      case None
      with 3 run(1) alloc show ?thesis
        by (subst claim_pages.simps) (auto intro: refused less.prems)
    next
      case (Some a)
      let ?st = "record_allocation (st\<lparr>fw := f\<rparr>) page run"
      have "unat e - unat (page + run * 4096) < unat e - unat page"
        using unat_page_plus [OF run(2)] pos lt by simp
      from less.hyps [OF this page_aligned_add [OF less.prems page_aligned_pages], of ?st]
      obtain r where r: "claim_pages F e (page + run * 4096) ?st = Some r"
          "P (page + run * 4096) ?st r"
        by blast
      have "P page st r"
        using claimed [OF less.prems pos run(2) _ alloc [unfolded Some] r(2)] run(3) by simp
      with 3 run(1) alloc Some r(1) show ?thesis
        by (subst claim_pages.simps) auto
    qed
  qed
qed

section \<open>The table of claims and the memory handed out\<close>

definition claims :: "'f mach \<Rightarrow> (u64 \<times> usize) list" where
  "claims st = take (ALLOC_COUNT st) (ALLOC_PAGES st)"

definition table_ok :: "('f \<Rightarrow> u64 set) \<Rightarrow> 'f mach \<Rightarrow> bool" where
  "table_ok owned st \<longleftrightarrow> length (ALLOC_PAGES st) = 32 \<and> ALLOC_COUNT st \<le> 32 \<and>
     (\<forall>(b, n) \<in> set (claims st).
        page_aligned b \<and> unat b + unat n * 4096 < 2 ^ 64 \<and> page_range b n \<subseteq> owned (fw st))"

lemma claims_nth:
  "ALLOC_COUNT st \<le> length (ALLOC_PAGES st) \<Longrightarrow>
   claims st = map (\<lambda>i. ALLOC_PAGES st ! i) [0..<ALLOC_COUNT st]"
  unfolding claims_def by (rule list_eq_nthI) auto

lemma page_allocated_claims:
  "ALLOC_COUNT st \<le> length (ALLOC_PAGES st) \<Longrightarrow>
   page_allocated st p \<longleftrightarrow> (\<exists>r \<in> set (claims st). record_covers p r)"
  by (simp add: page_allocated_def list_ex_iff claims_nth)

lemma claims_record:
  assumes "ALLOC_COUNT st \<le> length (ALLOC_PAGES st)" and "length (ALLOC_PAGES st) = 32"
  shows "claims (record_allocation st b n) =
    (if ALLOC_COUNT st < 32 then claims st @ [(b, n)] else claims st)"
  using assms by (simp add: claims_def record_allocation_def take_Suc_conv_app_nth)

lemma record_allocation_frame [simp]:
  "fw (record_allocation st b n) = fw st" "mem (record_allocation st b n) = mem st"
  "MOD_NAMES (record_allocation st b n) = MOD_NAMES st"
  "MOD_NAMES_POS (record_allocation st b n) = MOD_NAMES_POS st"
  "INFO_AT (record_allocation st b n) = INFO_AT st"
  "length (ALLOC_PAGES (record_allocation st b n)) = length (ALLOC_PAGES st)"
  by (simp_all add: record_allocation_def)

lemma table_ok_fw:
  "table_ok owned st \<Longrightarrow> owned (fw st) \<subseteq> owned f \<Longrightarrow> table_ok owned (st\<lparr>fw := f\<rparr>)"
  unfolding table_ok_def claims_def by fastforce

lemma table_ok_mem [simp]: "table_ok owned (st\<lparr>mem := m\<rparr>) = table_ok owned st"
  by (simp add: table_ok_def claims_def)

lemma table_ok_record:
  assumes "table_ok owned st" and "page_aligned b" and "unat b + unat n * 4096 < 2 ^ 64"
    and "page_range b n \<subseteq> owned (fw st)"
  shows "table_ok owned (record_allocation st b n)"
proof -
  from assms(1) have l: "ALLOC_COUNT st \<le> length (ALLOC_PAGES st)" "length (ALLOC_PAGES st) = 32"
    by (auto simp: table_ok_def)
  have "ALLOC_COUNT (record_allocation st b n) \<le> 32"
    using l by (simp add: record_allocation_def)
  with assms l show ?thesis
    unfolding table_ok_def by (simp add: claims_record)
qed

lemma in_page_range:
  assumes "p \<le> x" and "unat x < unat p + unat n * 4096"
  shows "x \<in> page_range p n"
  using assms by (simp add: page_range_def in_range_def unat_sub word_le_nat_alt)

lemma covered_page:
  assumes "record_covers p (b, n)" and "page_aligned p" and "page_aligned b"
    and "unat b + unat n * 4096 < 2 ^ 64"
    and "p \<le> x" and "unat x < unat p + 4096"
  shows "x \<in> page_range b n"
proof -
  have n: "unat (n * 4096) = unat n * 4096"
    using assms(4) unat_mult_no_overflow [of n "4096"] by simp
  have "unat (b + n * 4096) = unat b + unat n * 4096"
    using assms(4) n unat_add_no_overflow [of b "n * 4096"] by simp
  then have bp: "b \<le> p" "unat p < unat b + unat n * 4096"
    using assms(1) by (auto simp: record_covers_def word_less_nat_alt)
  have "page_aligned (b + n * 4096)"
    by (rule page_aligned_add [OF assms(3) page_aligned_pages])
  with bp(2) \<open>unat (b + n * 4096) = _\<close> assms(2)
  have "unat p + 4096 \<le> unat b + unat n * 4096"
    using page_step [of p "b + n * 4096" 0] by simp
  with assms(5,6) bp(1) show ?thesis
    by (intro in_page_range) (auto simp: word_le_nat_alt)
qed

text \<open>
  What claiming the pages of a segment achieves: memory is not touched, the table stays
  consistent with what the firmware handed out, and on success every byte of the range has been
  handed out.
\<close>

definition claims_result ::
    "('f \<Rightarrow> u64 set) \<Rightarrow> u64 set \<Rightarrow> u64 \<Rightarrow> u64 \<Rightarrow> 'f mach \<Rightarrow> bool \<times> 'f mach \<Rightarrow> bool" where
  "claims_result owned S e page st r \<longleftrightarrow> table_ok (\<lambda>f. owned f - S) st \<longrightarrow> S \<subseteq> owned (fw st) \<longrightarrow>
     mem (snd r) = mem st \<and> table_ok (\<lambda>f. owned f - S) (snd r) \<and> owned (fw st) \<subseteq> owned (fw (snd r)) \<and>
     (fst r \<longrightarrow> (\<forall>x. page \<le> x \<longrightarrow> x < e \<longrightarrow> x \<in> owned (fw (snd r)) - S))"

lemma claims_result_claimed:
  assumes contract: "alloc_contract F owned"
    and al: "page_aligned page" and pos: "0 < unat run"
    and le: "unat page + unat run * 4096 \<le> unat e"
    and alloc: "allocate_pages F (Address page) LOADER_DATA run (fw st) = (Some a, f)"
    and rest: "claims_result owned S e (page + run * 4096)
      (record_allocation (st\<lparr>fw := f\<rparr>) page run) r"
  shows "claims_result owned S e page st r"
  unfolding claims_result_def
proof (intro impI)
  assume ok: "table_ok (\<lambda>f. owned f - S) st" and S: "S \<subseteq> owned (fw st)"
  let ?st = "record_allocation (st\<lparr>fw := f\<rparr>) page run"
  have grow: "owned (fw st) \<subseteq> owned f" by (rule alloc_contract_owned [OF contract alloc])
  have range: "page_range page run \<subseteq> owned f - S"
    using alloc_contract_at [OF contract alloc] alloc_contract_new [OF contract alloc] S by blast
  have "table_ok (\<lambda>f. owned f - S) ?st"
    using le unat_u64_bound [of e] range
    by (intro table_ok_record table_ok_fw ok al) (use grow in auto)
  with rest S grow have r: "mem (snd r) = mem st" "table_ok (\<lambda>f. owned f - S) (snd r)" "owned f \<subseteq> owned (fw (snd r))"
      "fst r \<Longrightarrow> page + run * 4096 \<le> x \<Longrightarrow> x < e \<Longrightarrow> x \<in> owned (fw (snd r)) - S" for x
    unfolding claims_result_def by auto
  have "x \<in> owned (fw (snd r)) - S" if "fst r" "page \<le> x" "x < e" for x
  proof (cases "page + run * 4096 \<le> x")
    case True
    with that r(4) show ?thesis by blast
  next
    case False
    then have "unat x < unat page + unat run * 4096"
      using unat_page_plus [OF le] by (simp add: word_le_nat_alt)
    then have "x \<in> page_range page run" by (rule in_page_range [OF that(2)])
    with range r(3) show ?thesis by blast
  qed
  with r grow show "mem (snd r) = mem st \<and> table_ok (\<lambda>f. owned f - S) (snd r) \<and>
      owned (fw st) \<subseteq> owned (fw (snd r)) \<and>
      (fst r \<longrightarrow> (\<forall>x. page \<le> x \<longrightarrow> x < e \<longrightarrow> x \<in> owned (fw (snd r)) - S))"
    by blast
qed

lemma claims_result_skipped:
  assumes al: "page_aligned page" and taken: "page_allocated st page"
    and next_page: "unat (page + 4096) = unat page + 4096"
    and rest: "claims_result owned S e (page + 4096) st r"
  shows "claims_result owned S e page st r"
  unfolding claims_result_def
proof (intro impI)
  assume ok: "table_ok (\<lambda>f. owned f - S) st" and S: "S \<subseteq> owned (fw st)"
  with rest S have r: "mem (snd r) = mem st" "table_ok (\<lambda>f. owned f - S) (snd r)"
      "owned (fw st) \<subseteq> owned (fw (snd r))"
      "fst r \<Longrightarrow> page + 4096 \<le> x \<Longrightarrow> x < e \<Longrightarrow> x \<in> owned (fw (snd r)) - S" for x
    unfolding claims_result_def by auto
  from ok taken obtain b n where bn: "(b, n) \<in> set (claims st)" "record_covers page (b, n)"
    by (auto simp: table_ok_def page_allocated_claims)
  with ok have "page_aligned b" "unat b + unat n * 4096 < 2 ^ 64" "page_range b n \<subseteq> owned (fw st) - S"
    by (auto simp: table_ok_def)
  then have here: "x \<in> owned (fw st) - S" if "page \<le> x" "unat x < unat page + 4096" for x
    using covered_page [OF bn(2) al] that by blast
  have "x \<in> owned (fw (snd r)) - S" if "fst r" "page \<le> x" "x < e" for x
  proof (cases "page + 4096 \<le> x")
    case False
    then have "unat x < unat page + 4096" using next_page by (simp add: word_le_nat_alt)
    with here that r(3) show ?thesis by blast
  qed (use that r(4) in blast)
  with r show "mem (snd r) = mem st \<and> table_ok (\<lambda>f. owned f - S) (snd r) \<and>
      owned (fw st) \<subseteq> owned (fw (snd r)) \<and>
      (fst r \<longrightarrow> (\<forall>x. page \<le> x \<longrightarrow> x < e \<longrightarrow> x \<in> owned (fw (snd r)) - S))"
    by blast
qed

lemma claim_pages_owned:
  assumes "alloc_contract F owned" and "page_aligned page" and "page_aligned e"
  shows "\<exists>r. claim_pages F e page st = Some r \<and> claims_result owned S e page st r"
  using assms(2,3)
proof (rule claim_pages_rule)
  fix st :: "'a mach" and page run f
  assume "allocate_pages F (Address page) LOADER_DATA run (fw st) = (None, f)"
  then have "owned (fw st) \<subseteq> owned f" by (rule alloc_contract_owned [OF assms(1)])
  then show "claims_result owned S e page st (False, st\<lparr>fw := f\<rparr>)"
    using table_ok_fw [of "\<lambda>f. owned f - S" st f] by (auto simp: claims_result_def)
qed (auto simp: claims_result_def [of _ _ _ _ _ "(True, _)"]
      intro: claims_result_claimed [OF assms(1)] claims_result_skipped)

definition segment_base :: "u64 \<Rightarrow> u64" where
  "segment_base paddr = paddr AND NOT 0xFFF"

definition segment_end :: "u64 \<Rightarrow> u64 \<Rightarrow> u64" where
  "segment_end paddr memsz =
     segment_base paddr + (paddr - segment_base paddr + memsz + 4095) div 4096 * 4096"

lemma unat_segment_base: "unat (segment_base paddr) = unat paddr div 4096 * 4096"
  unfolding segment_base_def by (rule unat_page_base)

text \<open>The end of the pages of a segment, when rounding it up does not overflow.\<close>

lemma segment_extent:
  fixes paddr memsz :: u64
  assumes "unat paddr + unat memsz \<le> 2 ^ 64 - 4096"
  shows "unat paddr + unat memsz \<le>
    unat (segment_end paddr memsz)"
proof -
  let ?b = "segment_base paddr" and ?o = "paddr - segment_base paddr"
  have b: "unat ?b = unat paddr div 4096 * 4096" by (rule unat_segment_base)
  then have "?b \<le> paddr" by (simp add: word_le_nat_alt)
  then have ob: "unat ?b + unat ?o = unat paddr" by (simp add: unat_sub word_le_nat_alt)
  have t: "unat (?o + memsz) = unat ?o + unat memsz"
    using assms ob by (intro unat_add_no_overflow) simp
  then have t': "unat (?o + memsz + 4095) = unat ?o + unat memsz + 4095"
    using assms ob unat_add_no_overflow [of "?o + memsz" 4095] by simp
  let ?n = "(?o + memsz + 4095) div 4096"
  have n: "unat ?n = (unat ?o + unat memsz + 4095) div 4096"
    using t' by (simp add: unat_div)
  have up: "unat ?o + unat memsz \<le> (unat ?o + unat memsz + 4095) div 4096 * 4096"
    "(unat ?o + unat memsz + 4095) div 4096 * 4096 \<le> unat ?o + unat memsz + 4095" by simp_all
  have m: "unat (?n * 4096) = unat ?n * 4096"
    using up(2) n assms ob unat_mult_no_overflow [of ?n 4096] by simp
  have "unat (?b + ?n * 4096) = unat ?b + unat ?n * 4096"
    using up(2) n m assms ob unat_add_no_overflow [of ?b "?n * 4096"] by simp
  with up(1) n ob show ?thesis unfolding segment_end_def by simp
qed

lemma last_page_multiple:
  fixes q :: nat
  assumes "2 ^ 64 - 4096 < q * 4096" and "q * 4096 < 2 ^ 64 + 4096"
  shows "q * 4096 = 2 ^ 64"
proof -
  have "4503599627370495 < q" "q < 4503599627370497" using assms by simp_all
  then have "q = 4503599627370496" by simp
  then show ?thesis by simp
qed

lemma segment_extent_wraps:
  fixes paddr memsz :: u64
  assumes "2 ^ 64 - 4096 < unat paddr + unat memsz" and "unat paddr + unat memsz < 2 ^ 64"
  shows "\<not> segment_base paddr < segment_end paddr memsz"
proof -
  let ?b = "segment_base paddr" and ?o = "paddr - segment_base paddr"
  let ?n = "(?o + memsz + 4095) div 4096"
  have b: "unat ?b = unat paddr div 4096 * 4096" by (rule unat_segment_base)
  then have "?b \<le> paddr" by (simp add: word_le_nat_alt)
  then have ob: "unat ?b + unat ?o = unat paddr" by (simp add: unat_sub word_le_nat_alt)
  have t: "unat (?o + memsz) = unat ?o + unat memsz"
    using assms ob by (intro unat_add_no_overflow) simp
  show ?thesis
  proof (cases "unat ?o + unat memsz + 4095 < 2 ^ 64")
    case True
    then have t': "unat (?o + memsz + 4095) = unat ?o + unat memsz + 4095"
      using t unat_add_no_overflow [of "?o + memsz" 4095] by simp
    have n: "unat ?n = (unat ?o + unat memsz + 4095) div 4096"
      using t' by (simp add: unat_div)
    have up: "unat ?o + unat memsz \<le> unat ?n * 4096" "unat ?n * 4096 \<le> unat ?o + unat memsz + 4095"
      unfolding n by simp_all
    have m: "unat (?n * 4096) = unat ?n * 4096"
      using up(2) True unat_mult_no_overflow [of ?n 4096] by simp
    let ?s = "unat paddr div 4096 * 4096 + unat ?n * 4096"
    have "2 ^ 64 - 4096 < ?s" "?s < 2 ^ 64 + 4096"
      using up assms ob b by linarith+
    moreover have "?s = (unat paddr div 4096 + unat ?n) * 4096" by (simp add: algebra_simps)
    ultimately have "?s = 2 ^ 64" using last_page_multiple by metis
    then have "unat (?b + ?n * 4096) = 0"
      by (simp add: unat_word_ariths(1) [of ?b] m b)
    then show ?thesis unfolding segment_end_def by (simp add: word_less_nat_alt)
  next
    case False
    then have "unat (?o + memsz + 4095) = unat ?o + unat memsz + 4095 - 2 ^ 64"
      using t assms ob by (simp add: unat_word_ariths(1) [of "?o + memsz"] mod_if)
    then have "unat (?o + memsz + 4095) < 4096"
      using assms ob by simp
    then have "?n = 0" by (simp add: word_unat_eq_iff unat_div)
    then show ?thesis unfolding segment_end_def by simp
  qed
qed

section \<open>What loading a segment does\<close>

lemma claim_pages_frame:
  assumes "page_aligned page" and "page_aligned e"
  shows "\<exists>ok st'. claim_pages F e page st = Some (ok, st') \<and> mem st' = mem st \<and>
    MOD_NAMES st' = MOD_NAMES st \<and> MOD_NAMES_POS st' = MOD_NAMES_POS st \<and> INFO_AT st' = INFO_AT st"
proof -
  let ?P = "\<lambda>page st r. mem (snd r) = mem st \<and> MOD_NAMES (snd r) = MOD_NAMES st \<and>
    MOD_NAMES_POS (snd r) = MOD_NAMES_POS st \<and> INFO_AT (snd r) = INFO_AT st"
  have "\<exists>r. claim_pages F e page st = Some r \<and> ?P page st r"
    using assms by (rule claim_pages_rule) auto
  then show ?thesis by auto
qed

text \<open>The checks \<open>load_segment\<close> makes before it claims anything.\<close>

definition segment_checks :: "u64 \<Rightarrow> u64 \<Rightarrow> bytes \<Rightarrow> u64 \<Rightarrow> u64 \<Rightarrow> bool" where
  "segment_checks paddr memsz file_buf offset filesz \<longleftrightarrow>
     filesz \<le> memsz \<and> unat offset + unat filesz \<le> length file_buf \<and> unat paddr + unat memsz < 2 ^ 64"

lemma segment_checks_code:
  assumes "length file_buf < 2 ^ 64"
  shows "segment_checks paddr memsz file_buf offset filesz \<longleftrightarrow>
    \<not> memsz < filesz \<and>
    \<not> (case checked_add offset filesz of
        Some e \<Rightarrow> \<not> e \<le> of_nat (length file_buf) | None \<Rightarrow> True) \<and>
    checked_add paddr memsz \<noteq> None"
proof -
  have l: "unat (of_nat (length file_buf) :: u64) = length file_buf"
    using assms by (rule unat_offset)
  have "(case checked_add offset filesz of
      Some e \<Rightarrow> \<not> e \<le> of_nat (length file_buf) | None \<Rightarrow> True) \<longleftrightarrow>
    \<not> unat offset + unat filesz \<le> length file_buf"
    using assms l by (auto simp: checked_add_def word_le_nat_alt unat_add_no_overflow)
  then show ?thesis
    by (auto simp: segment_checks_def checked_add_def not_less)
qed

lemma segment_aligned:
  "page_aligned (segment_base paddr)" "page_aligned (segment_end paddr memsz)"
  unfolding segment_end_def segment_base_def
  by (intro page_aligned_base page_aligned_add page_aligned_pages)+

lemma load_segment_eq:
  assumes "length file_buf < 2 ^ 64"
  shows "load_segment F paddr memsz file_buf offset filesz st =
    (if segment_checks paddr memsz file_buf offset filesz
     then map_option (\<lambda>(ok, st'). (ok, if ok
         then st'\<lparr>mem := place_segment (mem st') paddr memsz file_buf offset filesz\<rparr> else st'))
       (claim_pages F (segment_end paddr memsz) (segment_base paddr) st)
     else Some (False, st))"
  unfolding segment_checks_code [OF assms] load_segment_def segment_end_def segment_base_def Let_def
  by (auto simp: map_option_case split: option.splits)

lemma place_segment_byte:
  assumes "unat filesz \<le> unat memsz" and "unat offset + unat filesz \<le> length file_buf"
    and "i < unat memsz"
  shows "place_segment m paddr memsz file_buf offset filesz (paddr + of_nat i) =
    (if i < unat filesz then file_buf ! (unat offset + i) else 0)"
proof -
  let ?s = "slice file_buf (unat offset) (unat filesz)"
  have i: "i < 2 ^ 64" using assms(3) unat_u64_bound [of memsz] by simp
  have z: "unat filesz + unat (memsz - filesz) = unat memsz"
    using assms(1) by (simp add: unat_sub word_le_nat_alt)
  have f: "mem_fill m' (paddr + filesz) (unat (memsz - filesz)) 0 (paddr + of_nat i) =
      (if unat filesz \<le> i then 0 else m' (paddr + of_nat i))" for m'
    using mem_write_at [of "unat filesz" "replicate (unat (memsz - filesz)) 0" i m' paddr]
      z i assms(3) unat_u64_bound [of memsz] by (simp add: mem_fill_eq_write)
  have w: "mem_write m paddr ?s (paddr + of_nat i) =
      (if i < unat filesz then file_buf ! (unat offset + i) else m (paddr + of_nat i))"
    using mem_write_at [of 0 ?s i m paddr] assms(2) i unat_u64_bound [of filesz]
    by (simp add: nth_slice)
  show ?thesis
  proof (cases "filesz < memsz")
    case True
    then show ?thesis using w by (simp add: place_segment_def Let_def f)
  next
    case False
    with assms have "filesz = memsz" by (simp add: word_less_nat_alt word_unat_eq_iff)
    with w assms(3) show ?thesis by (simp add: place_segment_def Let_def)
  qed
qed

lemma place_segment_frame:
  assumes "unat filesz \<le> unat memsz" and "unat offset + unat filesz \<le> length file_buf"
    and "\<not> in_range paddr (unat memsz) x"
  shows "place_segment m paddr memsz file_buf offset filesz x = m x"
proof -
  have d: "unat memsz \<le> unat (x - paddr)" using assms(3) by (simp add: in_range_def)
  then have "\<not> in_range paddr (unat filesz) x" using assms(1) by (simp add: in_range_def)
  moreover have "\<not> in_range (paddr + filesz) (unat (memsz - filesz)) x"
  proof -
    have "unat (x - paddr - filesz) = unat (x - paddr) - unat filesz"
      using d assms(1) by (intro unat_sub) (simp add: word_le_nat_alt)
    then have "unat (x - (paddr + filesz)) = unat (x - paddr) - unat filesz"
      by (simp only: diff_diff_eq)
    then show ?thesis
      using d assms(1) by (simp add: in_range_def unat_sub word_le_nat_alt)
  qed
  ultimately show ?thesis
    using assms(2) by (simp add: place_segment_def Let_def)
qed

section \<open>Properties of \<open>load_segment\<close>\<close>

lemma load_segment_cases:
  assumes "length file_buf < 2 ^ 64"
  obtains (refused) "\<not> segment_checks paddr memsz file_buf offset filesz"
      "load_segment F paddr memsz file_buf offset filesz st = Some (False, st)"
  | (claimed) ok st' where "segment_checks paddr memsz file_buf offset filesz"
      "claim_pages F (segment_end paddr memsz) (segment_base paddr) st = Some (ok, st')"
      "load_segment F paddr memsz file_buf offset filesz st = Some (ok, if ok
         then st'\<lparr>mem := place_segment (mem st') paddr memsz file_buf offset filesz\<rparr> else st')"
      "mem st' = mem st" "MOD_NAMES st' = MOD_NAMES st" "MOD_NAMES_POS st' = MOD_NAMES_POS st"
      "INFO_AT st' = INFO_AT st"
proof (cases "segment_checks paddr memsz file_buf offset filesz")
  case True
  obtain ok st' where "claim_pages F (segment_end paddr memsz) (segment_base paddr) st = Some (ok, st')"
      "mem st' = mem st" "MOD_NAMES st' = MOD_NAMES st" "MOD_NAMES_POS st' = MOD_NAMES_POS st"
      "INFO_AT st' = INFO_AT st"
    using claim_pages_frame [OF segment_aligned] by blast
  with True claimed show thesis by (simp add: load_segment_eq [OF assms])
next
  case False
  with refused show thesis by (simp add: load_segment_eq [OF assms])
qed

lemma segment_checksD:
  assumes "segment_checks paddr memsz file_buf offset filesz"
  shows "unat filesz \<le> unat memsz" and "unat offset + unat filesz \<le> length file_buf"
  using assms by (simp_all add: segment_checks_def word_le_nat_alt)

text \<open>
  \<open>load_segment\<close> always returns, even where rounding the segment up to whole pages overflows.
\<close>

lemma load_segment_total:
  "\<exists>ok st'. load_segment F paddr memsz file_buf offset filesz st = Some (ok, st')"
proof -
  obtain ok st' where
    "claim_pages F (segment_end paddr memsz) (segment_base paddr) st = Some (ok, st')"
    using claim_pages_frame [OF segment_aligned] by blast
  then show ?thesis
    unfolding load_segment_def segment_end_def segment_base_def Let_def by auto
qed

lemma load_segment_writes:
  assumes "length file_buf < 2 ^ 64"
    and "load_segment F paddr memsz file_buf offset filesz st = Some (True, st')"
  shows "segment_checks paddr memsz file_buf offset filesz"
    and "i < unat memsz \<Longrightarrow> mem st' (paddr + of_nat i) =
      (if i < unat filesz then file_buf ! (unat offset + i) else 0)"
    and "\<not> in_range paddr (unat memsz) x \<Longrightarrow> mem st' x = mem st x"
proof -
  have "segment_checks paddr memsz file_buf offset filesz \<and>
      mem st' = place_segment (mem st) paddr memsz file_buf offset filesz"
    using assms(1)
  proof (cases rule: load_segment_cases [where F = F and paddr = paddr and memsz = memsz and
        offset = offset and filesz = filesz and st = st])
    case (claimed ok st'')
    with assms(2) show ?thesis by (auto split: if_splits)
  qed (use assms(2) in simp)
  then have chk: "segment_checks paddr memsz file_buf offset filesz"
    and m: "mem st' = place_segment (mem st) paddr memsz file_buf offset filesz" by auto
  note bounds = segment_checksD [OF chk]
  show "segment_checks paddr memsz file_buf offset filesz" by (rule chk)
  show "i < unat memsz \<Longrightarrow> mem st' (paddr + of_nat i) =
      (if i < unat filesz then file_buf ! (unat offset + i) else 0)"
    unfolding m by (rule place_segment_byte [OF bounds])
  show "\<not> in_range paddr (unat memsz) x \<Longrightarrow> mem st' x = mem st x"
    unfolding m by (rule place_segment_frame [OF bounds])
qed

lemma load_segment_fresh:
  assumes "alloc_contract F owned" and "table_ok (\<lambda>f. owned f - S) st" and "length file_buf < 2 ^ 64"
    and "unat paddr + unat memsz \<le> 2 ^ 64 - 4096"
    and "load_segment F paddr memsz file_buf offset filesz st = Some (ok, st')"
    and "S \<subseteq> owned (fw st)"
  shows "table_ok (\<lambda>f. owned f - S) st' \<and> owned (fw st) \<subseteq> owned (fw st') \<and>
    (\<forall>x. mem st' x \<noteq> mem st x \<longrightarrow> ok \<and> in_range paddr (unat memsz) x) \<and>
    (ok \<longrightarrow> (\<forall>x. in_range paddr (unat memsz) x \<longrightarrow> x \<in> owned (fw st') - S))"
  using assms(3)
proof (cases rule: load_segment_cases [where F = F and paddr = paddr and memsz = memsz and
      offset = offset and filesz = filesz and st = st])
  case refused
  with assms(2,5) show ?thesis by auto
next
  case (claimed ok' st'')
  have ok: "ok' = ok" and st': "st' = (if ok then
      st''\<lparr>mem := place_segment (mem st'') paddr memsz file_buf offset filesz\<rparr> else st'')"
    using claimed(3) assms(5) by auto
  from claim_pages_owned [OF assms(1) segment_aligned(1) [of paddr] segment_aligned(2) [of paddr memsz], where S = S and st = st] claimed(2)
  have "claims_result owned S (segment_end paddr memsz) (segment_base paddr) st (ok, st'')"
    by (auto simp: ok)
  with assms(2,6) have c: "table_ok (\<lambda>f. owned f - S) st''" "owned (fw st) \<subseteq> owned (fw st'')"
      "ok \<Longrightarrow> segment_base paddr \<le> x \<Longrightarrow> x < segment_end paddr memsz \<Longrightarrow> x \<in> owned (fw st'') - S" for x
    by (auto simp: claims_result_def)
  have "in_range paddr (unat memsz) x \<and> ok" if "mem st' x \<noteq> mem st x" for x
  proof -
    from that claimed(4) st' have "ok" by (auto split: if_splits)
    with that st' claimed(4) show ?thesis
      using place_segment_frame [OF segment_checksD [OF claimed(1)]] by fastforce
  qed
  moreover have "x \<in> owned (fw st') - S" if "ok" "in_range paddr (unat memsz) x" for x
  proof -
    from that have d: "unat (x - paddr) < unat memsz" by (simp add: in_range_def)
    have "unat (paddr + (x - paddr)) = unat paddr + unat (x - paddr)"
      using d assms(4) by (intro unat_add_no_overflow) simp
    then have "unat x = unat paddr + unat (x - paddr)" by simp
    with d segment_extent [OF assms(4)] have "x < segment_end paddr memsz"
      by (simp add: word_less_nat_alt)
    moreover have "segment_base paddr \<le> x"
      using \<open>unat x = _\<close> by (simp add: word_le_nat_alt unat_segment_base)
    ultimately show ?thesis using c(3) \<open>ok\<close> st' by simp
  qed
  ultimately show ?thesis using c(1,2) st' by (cases ok) auto
qed

text \<open>In particular, what is written is memory handed out.\<close>

lemma load_segment_in_owned:
  assumes "alloc_contract F owned" and "table_ok owned st" and "length file_buf < 2 ^ 64"
    and "unat paddr + unat memsz \<le> 2 ^ 64 - 4096"
    and "load_segment F paddr memsz file_buf offset filesz st = Some (ok, st')"
  shows "table_ok owned st' \<and> owned (fw st) \<subseteq> owned (fw st') \<and>
    (\<forall>x. mem st' x \<noteq> mem st x \<longrightarrow> x \<in> owned (fw st'))"
  using load_segment_fresh [of F owned "{}", OF assms(1) _ assms(3-5)] assms(2) by auto

lemma load_segment_statics:
  assumes "load_segment F paddr memsz file_buf offset filesz st = Some (ok, st')"
  shows "MOD_NAMES st' = MOD_NAMES st \<and> MOD_NAMES_POS st' = MOD_NAMES_POS st \<and>
    INFO_AT st' = INFO_AT st"
proof -
  obtain ok' st'' where
    "claim_pages F (segment_end paddr memsz) (segment_base paddr) st = Some (ok', st'')"
    "MOD_NAMES st'' = MOD_NAMES st" "MOD_NAMES_POS st'' = MOD_NAMES_POS st" "INFO_AT st'' = INFO_AT st"
    using claim_pages_frame [OF segment_aligned] by blast
  with assms show ?thesis
    unfolding load_segment_def segment_end_def segment_base_def Let_def
    by (auto split: if_splits)
qed

text \<open>
  C34: when \<open>load_segment\<close> succeeds, the segment lay inside the file and inside the address space;
  the \<open>memsz\<close> bytes at \<open>paddr\<close> then hold the \<open>filesz\<close> bytes of the file from \<open>offset\<close> followed by
  zeros, and no other byte of memory has changed.
\<close>

theorem load_segment_contents:
  assumes "length file_buf < 2 ^ 64"
    and "load_segment F paddr memsz file_buf offset filesz st = Some (True, st')"
  shows "unat filesz \<le> unat memsz \<and> unat offset + unat filesz \<le> length file_buf \<and>
    unat paddr + unat memsz < 2 ^ 64 \<and>
    (\<forall>i < unat memsz. mem st' (paddr + of_nat i) =
       (if i < unat filesz then file_buf ! (unat offset + i) else 0)) \<and>
    (\<forall>x. \<not> in_range paddr (unat memsz) x \<longrightarrow> mem st' x = mem st x)"
  using load_segment_writes [OF assms] by (simp add: segment_checks_def word_le_nat_alt)

text \<open>
  A segment whose file size exceeds its memory size, whose file data is not inside the file, or
  whose extent overflows is refused before anything happens: no page is asked for, nothing is
  written.
\<close>

theorem load_segment_refused:
  assumes "length file_buf < 2 ^ 64"
    and "memsz < filesz \<or> length file_buf < unat offset + unat filesz \<or>
      2 ^ 64 \<le> unat paddr + unat memsz"
  shows "load_segment F paddr memsz file_buf offset filesz st = Some (False, st)"
proof -
  have "\<not> segment_checks paddr memsz file_buf offset filesz"
    using assms(2) by (auto simp: segment_checks_def word_le_nat_alt word_less_nat_alt)
  then show ?thesis by (simp add: load_segment_eq [OF assms(1)])
qed

text \<open>
  For a segment that ends at least a page below the top of the address space, every byte a
  successful \<open>load_segment\<close> wrote is in pages the firmware handed out, to this call or to an
  earlier one whose claim is in the table; the table stays consistent with the firmware.
\<close>

theorem load_segment_owned:
  assumes "alloc_contract F owned" and "table_ok owned st" and "length file_buf < 2 ^ 64"
    and "unat paddr + unat memsz \<le> 2 ^ 64 - 4096"
    and "load_segment F paddr memsz file_buf offset filesz st = Some (ok, st')"
  shows "table_ok owned st' \<and> owned (fw st) \<subseteq> owned (fw st') \<and>
    (\<forall>x. mem st' x \<noteq> mem st x \<longrightarrow> x \<in> owned (fw st'))"
  by (rule load_segment_in_owned [OF assms])

text \<open>
  C35: a segment that ends inside the last page of the address space passes the overflow check, but
  rounding it up to whole pages overflows: no page is claimed at all, and the segment is written
  all the same.
\<close>

theorem load_segment_last_page_unclaimed:
  assumes "length file_buf < 2 ^ 64" and "filesz \<le> memsz"
    and "unat offset + unat filesz \<le> length file_buf"
    and "2 ^ 64 - 4096 < unat paddr + unat memsz" and "unat paddr + unat memsz < 2 ^ 64"
  shows "load_segment F paddr memsz file_buf offset filesz st =
    Some (True, st\<lparr>mem := place_segment (mem st) paddr memsz file_buf offset filesz\<rparr>)"
proof -
  have "segment_checks paddr memsz file_buf offset filesz"
    using assms by (simp add: segment_checks_def)
  moreover have "claim_pages F (segment_end paddr memsz) (segment_base paddr) st = Some (True, st)"
    using segment_extent_wraps [OF assms(4,5)] by (subst claim_pages.simps) simp
  ultimately show ?thesis by (simp add: load_segment_eq [OF assms(1)])
qed

section \<open>Witnesses\<close>

lemmas load_segment_eval = load_segment_def checked_add_def claim_pages.simps segment_run.simps
  page_allocated_def record_covers_def record_allocation_def demo_mach_def demo_fw_def grant_at_def
  meets_def in_range_def upt_rec

text \<open>Five bytes of a six-byte file at \<open>0x100ffe\<close>, eight bytes in memory: two pages.\<close>

definition demo_segment :: "(bool \<times> grants mach) option" where
  "demo_segment = load_segment demo_fw 0x100ffe 8 [1, 2, 3, 4, 5, 6] 1 5 demo_mach"

lemma demo_segment_loads:
  "\<exists>st'. demo_segment = Some (True, st') \<and> fw st' = [(0x100000, 2)]"
  by (simp add: demo_segment_def load_segment_eval)

lemma table_ok_demo: "table_ok owned demo_mach"
  by (simp add: table_ok_def claims_def demo_mach_def)

theorem load_segment_contents_witness:
  "\<exists>st'. demo_segment = Some (True, st') \<and> mem st' 0x100ffe = 2 \<and> mem st' 0x101003 = 0"
proof -
  obtain st' where st': "demo_segment = Some (True, st')" using demo_segment_loads by blast
  note c = load_segment_contents [OF _ st' [unfolded demo_segment_def], simplified]
  from c have "\<forall>i < 8. mem st' (0x100ffe + of_nat i) = (if i < 5 then [1, 2, 3, 4, 5, 6] ! (1 + i) else 0)"
    by simp
  from this [rule_format, of 0] this [rule_format, of 5]
  have "mem st' 0x100ffe = 2" "mem st' 0x101003 = 0" by simp_all
  with st' show ?thesis by blast
qed

theorem load_segment_refused_witness:
  "load_segment demo_fw 0x100ffe 8 [1, 2, 3] 1 5 demo_mach = Some (False, demo_mach)"
  by (rule load_segment_refused) simp_all

theorem load_segment_owned_witness:
  "\<exists>st'. demo_segment = Some (True, st') \<and> table_ok granted st' \<and>
    (\<forall>x. mem st' x \<noteq> mem demo_mach x \<longrightarrow> x \<in> granted (fw st'))"
proof -
  obtain st' where st': "demo_segment = Some (True, st')" using demo_segment_loads by blast
  have "table_ok granted st' \<and> (\<forall>x. mem st' x \<noteq> mem demo_mach x \<longrightarrow> x \<in> granted (fw st'))"
    using load_segment_owned [OF grant_contract table_ok_demo _ _ st' [unfolded demo_segment_def]]
    by simp
  with st' show ?thesis by blast
qed

theorem load_segment_last_page_unclaimed_witness:
  "load_segment demo_fw 0 0xFFFFFFFFFFFFFFFF [] 0 0 demo_mach =
     Some (True, demo_mach\<lparr>mem := place_segment (mem demo_mach) 0 0xFFFFFFFFFFFFFFFF [] 0 0\<rparr>)"
  by (rule load_segment_last_page_unclaimed) (simp_all add: word_le_nat_alt)

end
