(* ===== verification/ElfKernel.thy ===== *)
theory ElfKernel
  imports ElfSegment
begin

text \<open>
  \<open>load_kernel\<close> of \<open>elf.rs\<close>: reading the file, checking it, and walking its program headers. The
  loops over 32-bit and 64-bit program headers are instances of the locale \<open>phdr_walk\<close>, where what
  they do is proved once.
\<close>

section \<open>The program header loops\<close>

datatype load_panic =
    NoFileSystem | NoVolume | KernelNotFound | KernelNotRegular | NoFileInfo | KernelReadFailed
  | ShortRead | NotElf | Elf32Truncated | NotI386 | Elf64Truncated | NotX86_64
  | MalformedSegment | UnsupportedClass u8

fun load_phdrs32 :: "'f firmware \<Rightarrow> bytes \<Rightarrow> usize \<Rightarrow> usize list \<Rightarrow> 'f mach \<Rightarrow>
    ((load_panic + unit) \<times> 'f mach) option" where
  "load_phdrs32 F file_buf phoff [] st = Some (Inr (), st)"
| "load_phdrs32 F file_buf phoff (i # is) st =
     (case Option.bind (checked_mul i (of_nat SIZEOF_PHDR32)) (\<lambda>k. checked_add phoff k) of
        None \<Rightarrow> Some (Inr (), st)
      | Some off \<Rightarrow>
          if (case checked_add off (of_nat SIZEOF_PHDR32) of
                None \<Rightarrow> True | Some e \<Rightarrow> of_nat (length file_buf) < e)
          then Some (Inr (), st)
          else let phdr = read_phdr32 file_buf (unat off)
               in if p32_type phdr \<noteq> PT_LOAD then load_phdrs32 F file_buf phoff is st
                  else Option.bind
                    (load_segment F (ucast (p32_paddr phdr)) (ucast (p32_memsz phdr)) file_buf
                       (ucast (p32_offset phdr)) (ucast (p32_filesz phdr)) st)
                    (\<lambda>(ok, st'). if ok then load_phdrs32 F file_buf phoff is st'
                                 else Some (Inl MalformedSegment, st')))"

fun load_phdrs64 :: "'f firmware \<Rightarrow> bytes \<Rightarrow> usize \<Rightarrow> usize list \<Rightarrow> 'f mach \<Rightarrow>
    ((load_panic + unit) \<times> 'f mach) option" where
  "load_phdrs64 F file_buf phoff [] st = Some (Inr (), st)"
| "load_phdrs64 F file_buf phoff (i # is) st =
     (case Option.bind (checked_mul i (of_nat SIZEOF_PHDR64)) (\<lambda>k. checked_add phoff k) of
        None \<Rightarrow> Some (Inr (), st)
      | Some off \<Rightarrow>
          if (case checked_add off (of_nat SIZEOF_PHDR64) of
                None \<Rightarrow> True | Some e \<Rightarrow> of_nat (length file_buf) < e)
          then Some (Inr (), st)
          else let phdr = read_phdr64 file_buf (unat off)
               in if p64_type phdr \<noteq> PT_LOAD then load_phdrs64 F file_buf phoff is st
                  else Option.bind
                    (load_segment F (p64_paddr phdr) (p64_memsz phdr) file_buf
                       (p64_offset phdr) (p64_filesz phdr) st)
                    (\<lambda>(ok, st'). if ok then load_phdrs64 F file_buf phoff is st'
                                 else Some (Inl MalformedSegment, st')))"

text \<open>The indices of \<open>for i in 0..phnum\<close>.\<close>

definition phdr_indices :: "u16 \<Rightarrow> usize list" where
  "phdr_indices phnum = map of_nat [0..<unat phnum]"

section \<open>Loading a kernel\<close>

definition load_elf32 :: "'f firmware \<Rightarrow> bytes \<Rightarrow> 'f mach \<Rightarrow> ((load_panic + u64) \<times> 'f mach) option" where
  "load_elf32 F file_buf st =
     (if length file_buf < SIZEOF_EHDR32 then Some (Inl Elf32Truncated, st)
      else let ehdr = read_ehdr32 file_buf
           in if \<not> (e32_type ehdr = ET_EXEC \<and> e32_machine ehdr = EM_386) then Some (Inl NotI386, st)
              else Option.bind
                (load_phdrs32 F file_buf (ucast (e32_phoff ehdr)) (phdr_indices (e32_phnum ehdr)) st)
                (\<lambda>(r, st'). case r of Inl p \<Rightarrow> Some (Inl p, st')
                                    | Inr _ \<Rightarrow> Some (Inr (ucast (e32_entry ehdr)), st')))"

definition load_elf64 :: "'f firmware \<Rightarrow> bytes \<Rightarrow> 'f mach \<Rightarrow> ((load_panic + u64) \<times> 'f mach) option" where
  "load_elf64 F file_buf st =
     (if length file_buf < SIZEOF_EHDR64 then Some (Inl Elf64Truncated, st)
      else let ehdr = read_ehdr64 file_buf
           in if \<not> (e64_type ehdr = ET_EXEC \<and> e64_machine ehdr = EM_X86_64) then Some (Inl NotX86_64, st)
              else Option.bind
                (load_phdrs64 F file_buf (e64_phoff ehdr) (phdr_indices (e64_phnum ehdr)) st)
                (\<lambda>(r, st'). case r of Inl p \<Rightarrow> Some (Inl p, st')
                                    | Inr _ \<Rightarrow> Some (Inr (e64_entry ehdr), st')))"

definition elf_magic :: "bytes \<Rightarrow> bool" where
  "elf_magic b \<longleftrightarrow> EI_NIDENT \<le> length b \<and> b ! 0 = 0x7F \<and> b ! 1 = 0x45 \<and> b ! 2 = 0x4C \<and> b ! 3 = 0x46"

definition load_image_buf ::
    "'f firmware \<Rightarrow> bytes \<Rightarrow> 'f mach \<Rightarrow> ((load_panic + kernel_info) \<times> 'f mach) option" where
  "load_image_buf F file_buf st =
     (if \<not> elf_magic file_buf then Some (Inl NotElf, st)
      else
        (let version = detect_multiboot_version file_buf;
             elf_class = file_buf ! 4
         in Option.bind
              (if elf_class = ELFCLASS32 then load_elf32 F file_buf st
               else if elf_class = ELFCLASS64 then load_elf64 F file_buf st
               else Some (Inl (UnsupportedClass elf_class), st))
              (\<lambda>(r, st'). case r of
                 Inl p \<Rightarrow> Some (Inl p, st')
               | Inr entry \<Rightarrow>
                   Some (Inr \<lparr>entry_point = entry, mb_version = version,
                     boot_mode = (if 0 < version then Protected32
                                  else if elf_class = ELFCLASS64 then Long64 else Protected32)\<rparr>, st'))))"

definition read_kernel :: "'f firmware \<Rightarrow> cstr16 \<Rightarrow> 'f \<Rightarrow> (load_panic + bytes) \<times> 'f" where
  "read_kernel F path f =
     (case get_image_file_system F f of (None, f) \<Rightarrow> (Inl NoFileSystem, f) | (Some fs, f) \<Rightarrow>
     (case open_volume F fs f of (None, f) \<Rightarrow> (Inl NoVolume, f) | (Some root, f) \<Rightarrow>
     (case dir_open F root path f of (None, f) \<Rightarrow> (Inl KernelNotFound, f) | (Some h, f) \<Rightarrow>
     (case into_regular_file F h f of (None, f) \<Rightarrow> (Inl KernelNotRegular, f) | (Some file, f) \<Rightarrow>
     (case get_file_size F file f of (None, f) \<Rightarrow> (Inl NoFileInfo, f) | (Some len, f) \<Rightarrow>
     (case file_read F file (unat len) f of (None, f) \<Rightarrow> (Inl KernelReadFailed, f) | (Some bs, f) \<Rightarrow>
        if length bs = unat len then (Inr bs, f) else (Inl ShortRead, f)))))))"

definition load_kernel :: "'f firmware \<Rightarrow> cstr16 \<Rightarrow> 'f mach \<Rightarrow> ((load_panic + kernel_info) \<times> 'f mach) option" where
  "load_kernel F path st =
     (case read_kernel F path (fw st) of
        (Inl p, f) \<Rightarrow> Some (Inl p, st\<lparr>fw := f\<rparr>)
      | (Inr file_buf, f) \<Rightarrow> load_image_buf F file_buf (st\<lparr>fw := f\<rparr>))"

section \<open>What the program header loops do\<close>

text \<open>A segment as \<open>load_segment\<close> is asked for it: \<open>p_paddr\<close>, \<open>p_memsz\<close>, \<open>p_offset\<close>, \<open>p_filesz\<close>.\<close>

record segment =
  seg_paddr :: u64
  seg_memsz :: u64
  seg_offset :: u64
  seg_filesz :: u64

definition load_seg :: "'f firmware \<Rightarrow> bytes \<Rightarrow> segment \<Rightarrow> 'f mach \<Rightarrow> (bool \<times> 'f mach) option" where
  "load_seg F file_buf s st =
     load_segment F (seg_paddr s) (seg_memsz s) file_buf (seg_offset s) (seg_filesz s) st"

text \<open>The specification of the loops: the segments, one after another, until one is refused.\<close>

fun load_segments :: "'f firmware \<Rightarrow> bytes \<Rightarrow> segment list \<Rightarrow> 'f mach \<Rightarrow>
    ((load_panic + unit) \<times> 'f mach) option" where
  "load_segments F file_buf [] st = Some (Inr (), st)"
| "load_segments F file_buf (s # ss) st =
     Option.bind (load_seg F file_buf s st) (\<lambda>(ok, st').
       if ok then load_segments F file_buf ss st' else Some (Inl MalformedSegment, st'))"

text \<open>The offset of entry \<open>i\<close> of a table of \<open>entry_size\<close>-byte headers, if all of it is in the file.\<close>

definition phdr_offset :: "nat \<Rightarrow> bytes \<Rightarrow> usize \<Rightarrow> usize \<Rightarrow> nat option" where
  "phdr_offset entry_size file_buf phoff i =
     (let k = unat phoff + unat i * entry_size in if k + entry_size \<le> length file_buf then Some k else None)"

text \<open>
  The segments a table names: the \<open>PT_LOAD\<close> entries before the first entry that is not all in the
  file, which ends the walk without an error.
\<close>

fun table_segments :: "nat \<Rightarrow> (bytes \<Rightarrow> nat \<Rightarrow> segment option) \<Rightarrow> bytes \<Rightarrow> usize \<Rightarrow> usize list \<Rightarrow>
    segment list" where
  "table_segments entry_size load_entry file_buf phoff [] = []"
| "table_segments entry_size load_entry file_buf phoff (i # is) =
     (case phdr_offset entry_size file_buf phoff i of
        None \<Rightarrow> []
      | Some k \<Rightarrow> (case load_entry file_buf k of
          None \<Rightarrow> table_segments entry_size load_entry file_buf phoff is
        | Some s \<Rightarrow> s # table_segments entry_size load_entry file_buf phoff is))"

locale phdr_walk =
  fixes walk :: "'f firmware \<Rightarrow> bytes \<Rightarrow> usize \<Rightarrow> usize list \<Rightarrow> 'f mach \<Rightarrow>
      ((load_panic + unit) \<times> 'f mach) option"
    and entry_size :: nat
    and load_entry :: "bytes \<Rightarrow> nat \<Rightarrow> segment option"
  assumes walk_Nil: "walk F file_buf phoff [] st = Some (Inr (), st)"
    and walk_Cons: "length file_buf < 2 ^ 64 \<Longrightarrow> walk F file_buf phoff (i # is) st =
      (case phdr_offset entry_size file_buf phoff i of
         None \<Rightarrow> Some (Inr (), st)
       | Some k \<Rightarrow> (case load_entry file_buf k of
           None \<Rightarrow> walk F file_buf phoff is st
         | Some s \<Rightarrow> Option.bind (load_seg F file_buf s st) (\<lambda>(ok, st').
             if ok then walk F file_buf phoff is st' else Some (Inl MalformedSegment, st'))))"
begin

lemma walk_eq:
  assumes "length file_buf < 2 ^ 64"
  shows "walk F file_buf phoff is st = load_segments F file_buf (table_segments entry_size load_entry file_buf phoff is) st"
proof (induction "is" arbitrary: st)
  case Nil
  then show ?case by (simp add: walk_Nil)
next
  case (Cons i "is")
  then show ?case
    by (auto simp: walk_Cons [OF assms] split: option.splits intro!: Option.bind_cong [OF refl])
qed

end

lemma unat_of_nat_mult:
  "n < 2 ^ 64 \<Longrightarrow> unat (i * of_nat n :: u64) = unat i * n \<longleftrightarrow> unat i * n < 2 ^ 64"
  using unat_u64_bound [of "i * of_nat n"] unat_mult_no_overflow [of i "of_nat n"]
  by (auto simp: unat_offset)

text \<open>The bounds check both loops make before they read a header, as one equation.\<close>

lemma phdr_check:
  assumes "length b < 2 ^ 64" and "n < 2 ^ 64"
  shows "(case Option.bind (checked_mul i (of_nat n)) (\<lambda>k. checked_add phoff k) of
        None \<Rightarrow> A
      | Some off \<Rightarrow>
          if (case checked_add off (of_nat n) of None \<Rightarrow> True | Some e \<Rightarrow> of_nat (length b) < e)
          then A else B (unat off)) =
    (case phdr_offset n b phoff i of None \<Rightarrow> A | Some k \<Rightarrow> B k)"
proof (cases "unat phoff + unat i * n + n \<le> length b")
  case True
  have n: "unat (of_nat n :: u64) = n" and l: "unat (of_nat (length b) :: u64) = length b"
    using assms by (simp_all add: unat_offset)
  have m: "checked_mul i (of_nat n) = Some (i * of_nat n)" "unat (i * of_nat n) = unat i * n"
    using True assms n by (simp_all add: checked_mul_def unat_mult_no_overflow)
  have a: "checked_add phoff (i * of_nat n) = Some (phoff + i * of_nat n)"
      "unat (phoff + i * of_nat n) = unat phoff + unat i * n"
    using True assms m by (simp_all add: checked_add_def unat_add_no_overflow)
  have e: "checked_add (phoff + i * of_nat n) (of_nat n) = Some (phoff + i * of_nat n + of_nat n)"
      "unat (phoff + i * of_nat n + of_nat n) = unat phoff + unat i * n + n"
    using True assms n a(2) unat_add_no_overflow [of "phoff + i * of_nat n" "of_nat n"]
    by (simp_all add: checked_add_def)
  show ?thesis
    using True m a e l by (simp add: phdr_offset_def word_less_nat_alt)
next
  case False
  have n: "unat (of_nat n :: u64) = n" and l: "unat (of_nat (length b) :: u64) = length b"
    using assms by (simp_all add: unat_offset)
  have "\<not> unat e \<le> length b"
    if "checked_mul i (of_nat n) = Some k" "checked_add phoff k = Some off"
      "checked_add off (of_nat n) = Some e" for k off e
    using checked_mul_Some [OF that(1)] checked_add_Some [OF that(2)] checked_add_Some [OF that(3)]
      False n by simp
  then show ?thesis
    using False l by (auto simp: phdr_offset_def word_less_nat_alt not_less bind_eq_Some_conv
        split: option.splits)
qed

definition load_entry32 :: "bytes \<Rightarrow> nat \<Rightarrow> segment option" where
  "load_entry32 b k = (let phdr = read_phdr32 b k in
     if p32_type phdr \<noteq> PT_LOAD then None
     else Some \<lparr>seg_paddr = ucast (p32_paddr phdr), seg_memsz = ucast (p32_memsz phdr),
       seg_offset = ucast (p32_offset phdr), seg_filesz = ucast (p32_filesz phdr)\<rparr>)"

definition load_entry64 :: "bytes \<Rightarrow> nat \<Rightarrow> segment option" where
  "load_entry64 b k = (let phdr = read_phdr64 b k in
     if p64_type phdr \<noteq> PT_LOAD then None
     else Some \<lparr>seg_paddr = p64_paddr phdr, seg_memsz = p64_memsz phdr,
       seg_offset = p64_offset phdr, seg_filesz = p64_filesz phdr\<rparr>)"

lemma load_phdrs32_Cons:
  assumes "length file_buf < 2 ^ 64"
  shows "load_phdrs32 F file_buf phoff (i # is) st =
    (case phdr_offset SIZEOF_PHDR32 file_buf phoff i of
       None \<Rightarrow> Some (Inr (), st)
     | Some k \<Rightarrow> (case load_entry32 file_buf k of
         None \<Rightarrow> load_phdrs32 F file_buf phoff is st
       | Some s \<Rightarrow> Option.bind (load_seg F file_buf s st) (\<lambda>(ok, st').
           if ok then load_phdrs32 F file_buf phoff is st' else Some (Inl MalformedSegment, st'))))"
    (is "_ = (case _ of None \<Rightarrow> _ | Some k \<Rightarrow> ?B k)")
proof -
  have b: "(let phdr = read_phdr32 file_buf k
      in if p32_type phdr \<noteq> PT_LOAD then load_phdrs32 F file_buf phoff is st
         else Option.bind (load_segment F (ucast (p32_paddr phdr)) (ucast (p32_memsz phdr)) file_buf
           (ucast (p32_offset phdr)) (ucast (p32_filesz phdr)) st)
           (\<lambda>(ok, st'). if ok then load_phdrs32 F file_buf phoff is st'
                        else Some (Inl MalformedSegment, st'))) = ?B k" for k
    by (simp add: load_entry32_def load_seg_def Let_def)
  have s: "SIZEOF_PHDR32 < 2 ^ 64" by (simp add: SIZEOF_PHDR32_def)
  show ?thesis
    unfolding load_phdrs32.simps b by (rule phdr_check [OF assms s, where B = ?B])
qed

lemma load_phdrs64_Cons:
  assumes "length file_buf < 2 ^ 64"
  shows "load_phdrs64 F file_buf phoff (i # is) st =
    (case phdr_offset SIZEOF_PHDR64 file_buf phoff i of
       None \<Rightarrow> Some (Inr (), st)
     | Some k \<Rightarrow> (case load_entry64 file_buf k of
         None \<Rightarrow> load_phdrs64 F file_buf phoff is st
       | Some s \<Rightarrow> Option.bind (load_seg F file_buf s st) (\<lambda>(ok, st').
           if ok then load_phdrs64 F file_buf phoff is st' else Some (Inl MalformedSegment, st'))))"
    (is "_ = (case _ of None \<Rightarrow> _ | Some k \<Rightarrow> ?B k)")
proof -
  have b: "(let phdr = read_phdr64 file_buf k
      in if p64_type phdr \<noteq> PT_LOAD then load_phdrs64 F file_buf phoff is st
         else Option.bind (load_segment F (p64_paddr phdr) (p64_memsz phdr) file_buf
           (p64_offset phdr) (p64_filesz phdr) st)
           (\<lambda>(ok, st'). if ok then load_phdrs64 F file_buf phoff is st'
                        else Some (Inl MalformedSegment, st'))) = ?B k" for k
    by (simp add: load_entry64_def load_seg_def Let_def)
  have s: "SIZEOF_PHDR64 < 2 ^ 64" by (simp add: SIZEOF_PHDR64_def)
  show ?thesis
    unfolding load_phdrs64.simps b by (rule phdr_check [OF assms s, where B = ?B])
qed

interpretation walk32: phdr_walk load_phdrs32 SIZEOF_PHDR32 load_entry32
  by unfold_locales (simp, rule load_phdrs32_Cons)

interpretation walk64: phdr_walk load_phdrs64 SIZEOF_PHDR64 load_entry64
  by unfold_locales (simp, rule load_phdrs64_Cons)

section \<open>What loading a list of segments does\<close>

definition seg_range :: "segment \<Rightarrow> u64 set" where
  "seg_range s = {x. in_range (seg_paddr s) (unat (seg_memsz s)) x}"

definition seg_loaded :: "memory \<Rightarrow> bytes \<Rightarrow> segment \<Rightarrow> bool" where
  "seg_loaded m file_buf s \<longleftrightarrow> (\<forall>i < unat (seg_memsz s). m (seg_paddr s + of_nat i) =
     (if i < unat (seg_filesz s) then file_buf ! (unat (seg_offset s) + i) else 0))"

fun segs_disjoint :: "segment list \<Rightarrow> bool" where
  "segs_disjoint [] \<longleftrightarrow> True"
| "segs_disjoint (s # ss) \<longleftrightarrow>
     (\<forall>t \<in> set ss. seg_range s \<inter> seg_range t = {}) \<and> segs_disjoint ss"

definition seg_below_top :: "segment \<Rightarrow> bool" where
  "seg_below_top s \<longleftrightarrow> unat (seg_paddr s) + unat (seg_memsz s) \<le> 2 ^ 64 - 4096"

lemma load_segments_returns: "\<exists>r st'. load_segments F file_buf ss st = Some (r, st')"
proof (induction ss arbitrary: st)
  case (Cons s ss)
  obtain ok st' where "load_seg F file_buf s st = Some (ok, st')"
    using load_segment_total unfolding load_seg_def by blast
  with Cons.IH [of st'] show ?case by auto
qed simp

lemma load_seg_loaded:
  assumes "length file_buf < 2 ^ 64" and "load_seg F file_buf s st = Some (True, st')"
  shows "seg_loaded (mem st') file_buf s" and "x \<notin> seg_range s \<Longrightarrow> mem st' x = mem st x"
  using load_segment_writes [OF assms(1) assms(2) [unfolded load_seg_def]]
  by (auto simp: seg_loaded_def seg_range_def)

lemma seg_byte_in_range: "i < unat (seg_memsz s) \<Longrightarrow> seg_paddr s + of_nat i \<in> seg_range s"
  using unat_u64_bound [of "seg_memsz s"] by (simp add: seg_range_def in_range_def unat_offset)

lemma load_segments_frame:
  assumes "length file_buf < 2 ^ 64"
  shows "load_segments F file_buf ss st = Some (Inr (), st') \<Longrightarrow> \<forall>s \<in> set ss. x \<notin> seg_range s \<Longrightarrow>
    mem st' x = mem st x"
proof (induction ss arbitrary: st)
  case (Cons s ss)
  from Cons.prems(1) obtain st1 where s: "load_seg F file_buf s st = Some (True, st1)"
    and ss: "load_segments F file_buf ss st1 = Some (Inr (), st')"
    by (auto simp: bind_eq_Some_conv split: if_splits)
  have "mem st1 x = mem st x" using Cons.prems(2) by (intro load_seg_loaded(2) [OF assms s]) simp
  with Cons.IH [OF ss] Cons.prems(2) show ?case by simp
qed simp

lemma load_segments_loaded:
  assumes "length file_buf < 2 ^ 64"
  shows "load_segments F file_buf ss st = Some (Inr (), st') \<Longrightarrow> segs_disjoint ss \<Longrightarrow>
    s \<in> set ss \<Longrightarrow> seg_loaded (mem st') file_buf s"
proof (induction ss arbitrary: st)
  case (Cons t ss)
  from Cons.prems(1) obtain st1 where t: "load_seg F file_buf t st = Some (True, st1)"
    and ss: "load_segments F file_buf ss st1 = Some (Inr (), st')"
    by (auto simp: bind_eq_Some_conv split: if_splits)
  show ?case
  proof (cases "s \<in> set ss")
    case True
    with Cons.IH [OF ss] Cons.prems(2) show ?thesis by simp
  next
    case False
    with Cons.prems(3) have "s = t" by simp
    have "mem st' x = mem st1 x" if "x \<in> seg_range t" for x
      using Cons.prems(2) that by (intro load_segments_frame [OF assms ss]) auto
    with load_seg_loaded(1) [OF assms t] show ?thesis
      unfolding \<open>s = t\<close> seg_loaded_def using seg_byte_in_range by simp
  qed
qed simp

lemma load_segments_owned:
  assumes "alloc_contract F owned" and "length file_buf < 2 ^ 64"
  shows "load_segments F file_buf ss st = Some (r, st') \<Longrightarrow> table_ok owned st \<Longrightarrow>
    \<forall>s \<in> set ss. seg_below_top s \<Longrightarrow>
    table_ok owned st' \<and> owned (fw st) \<subseteq> owned (fw st') \<and>
    (\<forall>x. mem st' x \<noteq> mem st x \<longrightarrow> x \<in> owned (fw st'))"
proof (induction ss arbitrary: st)
  case (Cons s ss)
  from Cons.prems(1) obtain ok st1 where s: "load_seg F file_buf s st = Some (ok, st1)"
    and ss: "ok \<Longrightarrow> load_segments F file_buf ss st1 = Some (r, st')" "\<not> ok \<Longrightarrow> st' = st1"
    by (auto simp: bind_eq_Some_conv split: if_splits)
  have top: "unat (seg_paddr s) + unat (seg_memsz s) \<le> 2 ^ 64 - 4096"
    using Cons.prems(3) by (simp add: seg_below_top_def)
  have one: "table_ok owned st1" "owned (fw st) \<subseteq> owned (fw st1)"
      "mem st1 x \<noteq> mem st x \<Longrightarrow> x \<in> owned (fw st1)" for x
    using load_segment_in_owned [OF assms(1) Cons.prems(2) assms(2) top s [unfolded load_seg_def]]
    by auto
  show ?case
  proof (cases ok)
    case True
    from Cons.IH [OF ss(1) [OF True] one(1)] Cons.prems(3)
    have rest: "table_ok owned st'" "owned (fw st1) \<subseteq> owned (fw st')"
        "mem st' x \<noteq> mem st1 x \<Longrightarrow> x \<in> owned (fw st')" for x
      by auto
    have "x \<in> owned (fw st')" if "mem st' x \<noteq> mem st x" for x
      using that one(3) [of x] rest(2) rest(3) [of x] by (cases "mem st' x = mem st1 x") auto
    with rest one(2) show ?thesis by blast
  next
    case False
    with ss(2) one show ?thesis by auto
  qed
qed simp

text \<open>
  What is claimed for the segments was free when the loading began: given a set \<open>S\<close> of memory
  handed out before and no earlier claims in it, the segments lie outside it and it is kept.
\<close>

lemma load_segments_fresh:
  assumes "alloc_contract F owned" and "length file_buf < 2 ^ 64"
  shows "load_segments F file_buf ss st = Some (r, st') \<Longrightarrow> table_ok (\<lambda>f. owned f - S) st \<Longrightarrow>
    S \<subseteq> owned (fw st) \<Longrightarrow> \<forall>s \<in> set ss. seg_below_top s \<Longrightarrow>
    owned (fw st) \<subseteq> owned (fw st') \<and> (\<forall>x \<in> S. mem st' x = mem st x) \<and>
    (r = Inr () \<longrightarrow> (\<forall>s \<in> set ss. seg_range s \<subseteq> owned (fw st') - S))"
proof (induction ss arbitrary: st)
  case (Cons s ss)
  from Cons.prems(1) obtain ok st1 where s: "load_seg F file_buf s st = Some (ok, st1)"
    and ss: "ok \<Longrightarrow> load_segments F file_buf ss st1 = Some (r, st')" "\<not> ok \<Longrightarrow> st' = st1 \<and> r \<noteq> Inr ()"
    by (auto simp: bind_eq_Some_conv split: if_splits)
  have top: "unat (seg_paddr s) + unat (seg_memsz s) \<le> 2 ^ 64 - 4096"
    using Cons.prems(4) by (simp add: seg_below_top_def)
  note f = load_segment_fresh [OF assms(1) Cons.prems(2) assms(2) top s [unfolded load_seg_def] Cons.prems(3)]
  then have one: "table_ok (\<lambda>f. owned f - S) st1" "owned (fw st) \<subseteq> owned (fw st1)"
      "mem st1 x \<noteq> mem st x \<Longrightarrow> ok \<and> x \<in> seg_range s" "ok \<Longrightarrow> seg_range s \<subseteq> owned (fw st1) - S" for x
    by (auto simp: seg_range_def)
  then have kept: "\<forall>x \<in> S. mem st1 x = mem st x" by blast
  show ?case
  proof (cases ok)
    case True
    have "S \<subseteq> owned (fw st1)" using Cons.prems(3) one(2) by blast
    with Cons.IH [OF ss(1) [OF True] one(1)] Cons.prems(4)
    have "owned (fw st1) \<subseteq> owned (fw st')" "\<forall>x \<in> S. mem st' x = mem st1 x"
        "r = Inr () \<longrightarrow> (\<forall>s \<in> set ss. seg_range s \<subseteq> owned (fw st') - S)"
      by auto
    with one(2,4) True kept show ?thesis by auto
  next
    case False
    with ss(2) one(2) kept show ?thesis by auto
  qed
qed auto

lemma load_segments_statics:
  "load_segments F file_buf ss st = Some (r, st') \<Longrightarrow>
   MOD_NAMES st' = MOD_NAMES st \<and> MOD_NAMES_POS st' = MOD_NAMES_POS st \<and> INFO_AT st' = INFO_AT st"
proof (induction ss arbitrary: st)
  case (Cons s ss)
  from Cons.prems obtain ok st1 where s: "load_seg F file_buf s st = Some (ok, st1)"
    and ss: "ok \<Longrightarrow> load_segments F file_buf ss st1 = Some (r, st')" "\<not> ok \<Longrightarrow> st' = st1"
    by (auto simp: bind_eq_Some_conv split: if_splits)
  with load_segment_statics [OF s [unfolded load_seg_def]] Cons.IH [OF ss(1)] show ?case
    by (cases ok) auto
qed simp

section \<open>Loading an image, as a specification\<close>

text \<open>Why an image is refused before any segment is looked at.\<close>

definition image_error :: "bytes \<Rightarrow> load_panic option" where
  "image_error b =
     (if \<not> elf_magic b then Some NotElf
      else if b ! 4 = ELFCLASS32 then
        (if length b < SIZEOF_EHDR32 then Some Elf32Truncated
         else if \<not> (field16 b 16 = ET_EXEC \<and> field16 b 18 = EM_386) then Some NotI386 else None)
      else if b ! 4 = ELFCLASS64 then
        (if length b < SIZEOF_EHDR64 then Some Elf64Truncated
         else if \<not> (field16 b 16 = ET_EXEC \<and> field16 b 18 = EM_X86_64) then Some NotX86_64 else None)
      else Some (UnsupportedClass (b ! 4)))"

definition elf_segments :: "bytes \<Rightarrow> segment list" where
  "elf_segments b =
     (if b ! 4 = ELFCLASS32
      then table_segments SIZEOF_PHDR32 load_entry32 b (ucast (field32 b 28)) (phdr_indices (field16 b 44))
      else table_segments SIZEOF_PHDR64 load_entry64 b (field64 b 32) (phdr_indices (field16 b 56)))"

definition elf_info :: "bytes \<Rightarrow> kernel_info" where
  "elf_info b =
     (let v = detect_multiboot_version b in
      \<lparr>entry_point = (if b ! 4 = ELFCLASS32 then ucast (field32 b 24) else field64 b 24),
       mb_version = v,
       boot_mode = (if v = 0 \<and> b ! 4 = ELFCLASS64 then Long64 else Protected32)\<rparr>)"

lemma class_neq [simp]: "ELFCLASS32 \<noteq> ELFCLASS64" "ELFCLASS64 \<noteq> ELFCLASS32"
  by (simp_all add: elf_consts)

lemma load_image_buf_eq:
  assumes "length b < 2 ^ 64"
  shows "load_image_buf F b st =
    (case image_error b of
       Some p \<Rightarrow> Some (Inl p, st)
     | None \<Rightarrow> map_option (\<lambda>(r, st'). (map_sum id (\<lambda>_. elf_info b) r, st'))
         (load_segments F b (elf_segments b) st))"
proof (cases "image_error b")
  case None
  have v: "(0 < v) = (v \<noteq> (0 :: u32))" for v by (simp add: word_gt_0)
  obtain r st' where "load_segments F b (elf_segments b) st = Some (r, st')"
    using load_segments_returns by blast
  with None show ?thesis
    by (auto simp: image_error_def load_image_buf_def load_elf32_def load_elf64_def elf_segments_def
        elf_info_def read_ehdr32_def read_ehdr64_def walk32.walk_eq [OF assms] v
        walk64.walk_eq [OF assms] Let_def split: if_splits sum.splits)
next
  case (Some p)
  then show ?thesis
    by (auto simp: image_error_def load_image_buf_def load_elf32_def load_elf64_def
        read_ehdr32_def read_ehdr64_def Let_def split: if_splits)
qed

lemma map_sum_const_Inr: "map_sum id (\<lambda>_. c) r = Inr d \<longleftrightarrow> r = Inr () \<and> d = c"
  by (cases r) auto

lemma load_image_ok:
  assumes "length b < 2 ^ 64" and "load_image_buf F b st = Some (Inr info, st')"
  shows "image_error b = None" and "info = elf_info b"
    and "load_segments F b (elf_segments b) st = Some (Inr (), st')"
  using assms(2) unfolding load_image_buf_eq [OF assms(1)]
  by (auto simp: map_sum_const_Inr split: option.splits)

lemma load_image_total: "length b < 2 ^ 64 \<Longrightarrow> \<exists>r st'. load_image_buf F b st = Some (r, st')"
  using load_segments_returns [of F b "elf_segments b" st]
  by (auto simp: load_image_buf_eq split: option.splits)

text \<open>A 32-bit header cannot name memory near the top of the address space.\<close>

lemma load_entry32_below: "load_entry32 b k = Some s \<Longrightarrow> seg_below_top s"
  using unat_u32_bound [of "p32_paddr (read_phdr32 b k)"] unat_u32_bound [of "p32_memsz (read_phdr32 b k)"]
  by (auto simp: load_entry32_def seg_below_top_def Let_def split: if_splits)

lemma table_segments_all:
  "(\<And>k s. load_entry b k = Some s \<Longrightarrow> P s) \<Longrightarrow> s \<in> set (table_segments n load_entry b phoff is) \<Longrightarrow> P s"
  by (induction "is") (auto split: option.splits)

lemma elf32_segments_below: "b ! 4 = ELFCLASS32 \<Longrightarrow> s \<in> set (elf_segments b) \<Longrightarrow> seg_below_top s"
  unfolding elf_segments_def by (auto elim: table_segments_all [rotated] intro: load_entry32_below)

section \<open>Properties of loading a kernel\<close>

text \<open>
  C36: \<open>detect_multiboot_version\<close> finds exactly what it says: version 2 if one of the 8-byte aligned
  positions in the first 32768 bytes (or in the file, if that is shorter) holds a whole Multiboot2
  header with its magic and a zero checksum; otherwise version 1 if one of the 4-byte aligned
  positions in the first 8192 bytes holds such a Multiboot1 header; otherwise 0.
\<close>

theorem detect_multiboot_version_spec:
  "detect_multiboot_version b =
    (if \<exists>k. k * 8 + 16 \<le> min (length b) 32768 \<and> mb2_header_at b (k * 8) then 2
     else if \<exists>k. k * 4 + 12 \<le> min (length b) 8192 \<and> mb1_header_at b (k * 4) then 1
     else 0)"
  unfolding detect_multiboot_version_def mb2.scan_iff mb1.scan_iff by simp

text \<open>
  C17: loading a kernel always comes to an end, with a loaded kernel or with one of the panics of the
  code: for every path, every answer of the firmware and every file it delivers, however large
  or odd the counts, offsets and sizes in its headers are.
\<close>

theorem load_kernel_returns: "\<exists>r st'. load_kernel F path st = Some (r, st')"
proof -
  obtain r f where rk: "read_kernel F path (fw st) = (r, f)" by force
  show ?thesis
  proof (cases r)
    case (Inr b)
    have "length b < 2 ^ 64"
      using rk unat_u64_bound unfolding Inr read_kernel_def by (auto split: prod.splits option.splits if_splits)
    from load_image_total [OF this] rk Inr show ?thesis by (auto simp: load_kernel_def)
  qed (use rk in \<open>auto simp: load_kernel_def\<close>)
qed

text \<open>
  C18: a file that is no ELF file, is truncated, is of another class or not an executable for the
  machine its class stands for makes \<open>load_kernel\<close> panic with the assertion it fails, before any
  page is claimed or any byte written.
\<close>

theorem load_image_rejects:
  assumes "length b < 2 ^ 64" and "image_error b = Some p"
  shows "load_image_buf F b st = Some (Inl p, st)"
  using assms by (simp add: load_image_buf_eq)

text \<open>
  C4: when an image is loaded and its segments do not overlap, each segment named by a \<open>PT_LOAD\<close>
  header that lies in the file is in memory at its physical address, zero-filled to its memory
  size; memory outside all of them is as it was, and the entry point is the one in the header.
\<close>

theorem load_image_contents:
  assumes "length b < 2 ^ 64" and "load_image_buf F b st = Some (Inr info, st')"
    and "segs_disjoint (elf_segments b)"
  shows "(\<forall>s \<in> set (elf_segments b). seg_loaded (mem st') b s) \<and>
    (\<forall>x. (\<forall>s \<in> set (elf_segments b). x \<notin> seg_range s) \<longrightarrow> mem st' x = mem st x) \<and>
    entry_point info = (if b ! 4 = ELFCLASS32 then ucast (field32 b 24) else field64 b 24)"
proof -
  note ok = load_image_ok [OF assms(1,2)]
  show ?thesis
    using load_segments_loaded [OF assms(1) ok(3) assms(3)] load_segments_frame [OF assms(1) ok(3)]
    by (simp add: ok(2) elf_info_def Let_def)
qed

text \<open>
  Whatever a 32-bit image says, loading it writes only to memory that the firmware handed out
  to the loader; for a 64-bit image the same holds if no segment reaches into the last page of
  the address space. It holds of images that are refused half-way, too.
\<close>

theorem load_image_owned:
  assumes "alloc_contract F owned" and "table_ok owned st" and "length b < 2 ^ 64"
    and "b ! 4 = ELFCLASS32 \<or> list_all seg_below_top (elf_segments b)"
    and "load_image_buf F b st = Some (r, st')"
  shows "table_ok owned st' \<and> (\<forall>x. mem st' x \<noteq> mem st x \<longrightarrow> x \<in> owned (fw st'))"
proof (cases "image_error b")
  case None
  with assms(3,5) obtain r' where "load_segments F b (elf_segments b) st = Some (r', st')"
    by (auto simp: load_image_buf_eq)
  moreover have "\<forall>s \<in> set (elf_segments b). seg_below_top s"
    using assms(4) elf32_segments_below by (auto simp: list_all_iff)
  ultimately show ?thesis
    using load_segments_owned [OF assms(1,3) _ assms(2)] by blast
qed (use assms(2,3,5) in \<open>auto simp: load_image_buf_eq\<close>)

text \<open>
  A kernel is entered in long mode exactly when it is a 64-bit image without a Multiboot header;
  in particular the long-mode branch never has a Multiboot version to pass on.
\<close>

theorem load_image_boot_mode:
  assumes "length b < 2 ^ 64" and "load_image_buf F b st = Some (Inr info, st')"
  shows "mb_version info = detect_multiboot_version b \<and>
    (boot_mode info = Long64 \<longleftrightarrow> b ! 4 = ELFCLASS64 \<and> mb_version info = 0)"
  using load_image_ok [OF assms] by (auto simp: elf_info_def Let_def)

section \<open>Witnesses\<close>

text \<open>
  A 64-bit executable with one program header: four bytes of the file at offset 120, eight in
  memory at \<open>0x200000\<close>.
\<close>

definition demo_elf64 :: bytes where
  "demo_elf64 = [0x7F, 0x45, 0x4C, 0x46, 2, 1, 1, 0, 0, 0, 0, 0, 0, 0, 0, 0,
     2, 0, 62, 0, 1, 0, 0, 0, 4, 0, 0x20, 0, 0, 0, 0, 0, 64, 0, 0, 0, 0, 0, 0, 0,
     0, 0, 0, 0, 0, 0, 0, 0, 0, 0, 0, 0, 64, 0, 56, 0, 1, 0, 0, 0, 0, 0, 0, 0,
     1, 0, 0, 0, 5, 0, 0, 0, 120, 0, 0, 0, 0, 0, 0, 0, 0, 0, 0x20, 0, 0, 0, 0, 0,
     0, 0, 0x20, 0, 0, 0, 0, 0, 4, 0, 0, 0, 0, 0, 0, 0, 8, 0, 0, 0, 0, 0, 0, 0,
     0, 0, 0, 0, 0, 0, 0, 0, 0xAA, 0xBB, 0xCC, 0xDD]"

lemma demo_elf64_segments:
  "elf_segments demo_elf64 = [\<lparr>seg_paddr = 0x200000, seg_memsz = 8, seg_offset = 120, seg_filesz = 4\<rparr>]"
  by (simp add: demo_elf64_def elf_segments_def elf_consts elf_sizes phdr_indices_def field16_def
      field32_def field64_def slice_def phdr_offset_def load_entry64_def read_phdr64_def Let_def)

lemma demo_elf64_accepted: "image_error demo_elf64 = None"
  by (simp add: demo_elf64_def image_error_def elf_magic_def elf_consts elf_sizes field16_def slice_def)

lemma demo_elf64_length [simp]: "length demo_elf64 < 2 ^ 64"
  by (simp add: demo_elf64_def)

definition demo_image :: "((load_panic + kernel_info) \<times> grants mach) option" where
  "demo_image = load_image_buf demo_fw demo_elf64 demo_mach"

lemma demo_image_loads: "\<exists>info st'. demo_image = Some (Inr info, st')"
  unfolding demo_image_def load_image_buf_eq [OF demo_elf64_length]
  by (simp add: demo_elf64_accepted demo_elf64_segments load_seg_def load_segment_eval)
    (simp add: demo_elf64_def)

lemma demo_elf64_no_header: "detect_multiboot_version demo_elf64 = 0"
  by (simp add: detect_multiboot_version_def demo_elf64_def mb2_scan.simps mb1_scan.simps
      mb2_header_at_def mb1_header_at_def field32_def slice_def elf_consts Let_def)

theorem load_image_rejects_witness:
  "load_image_buf demo_fw [0x7F, 0x45, 0x4C] demo_mach = Some (Inl NotElf, demo_mach)"
  by (rule load_image_rejects) (simp_all add: image_error_def elf_magic_def EI_NIDENT_def)

theorem load_image_contents_witness:
  "\<exists>info st'. demo_image = Some (Inr info, st') \<and> entry_point info = 0x200004 \<and>
    mem st' 0x200003 = 0xDD \<and> mem st' 0x200004 = 0"
proof -
  obtain info st' where d: "demo_image = Some (Inr info, st')" using demo_image_loads by blast
  have "segs_disjoint (elf_segments demo_elf64)" by (simp add: demo_elf64_segments)
  from load_image_contents [OF demo_elf64_length d [unfolded demo_image_def] this]
  have l: "seg_loaded (mem st') demo_elf64
      \<lparr>seg_paddr = 0x200000, seg_memsz = 8, seg_offset = 120, seg_filesz = 4\<rparr>"
    and e: "entry_point info = 0x200004"
    by (simp_all add: demo_elf64_segments) (simp add: demo_elf64_def field64_def slice_def elf_consts)
  from l have "\<forall>i < 8. mem st' (0x200000 + of_nat i) = (if i < 4 then demo_elf64 ! (120 + i) else 0)"
    by (simp add: seg_loaded_def)
  from this [rule_format, of 3] this [rule_format, of 4]
  have "mem st' 0x200003 = 0xDD" "mem st' 0x200004 = 0" by (simp_all add: demo_elf64_def)
  with d e show ?thesis by blast
qed

theorem load_image_owned_witness:
  "\<exists>r st'. demo_image = Some (r, st') \<and> table_ok granted st' \<and>
    (\<forall>x. mem st' x \<noteq> mem demo_mach x \<longrightarrow> x \<in> granted (fw st'))"
proof -
  obtain info st' where d: "demo_image = Some (Inr info, st')" using demo_image_loads by blast
  have "list_all seg_below_top (elf_segments demo_elf64)"
    by (simp add: demo_elf64_segments seg_below_top_def)
  with load_image_owned [OF grant_contract table_ok_demo demo_elf64_length _ d [unfolded demo_image_def]] d
  show ?thesis by blast
qed

theorem load_image_boot_mode_witness:
  "\<exists>info st'. demo_image = Some (Inr info, st') \<and> boot_mode info = Long64"
proof -
  obtain info st' where d: "demo_image = Some (Inr info, st')" using demo_image_loads by blast
  from load_image_boot_mode [OF demo_elf64_length d [unfolded demo_image_def]]
  have "boot_mode info = Long64 \<longleftrightarrow> demo_elf64 ! 4 = ELFCLASS64"
    by (simp add: demo_elf64_no_header)
  then have "boot_mode info = Long64" by (simp add: demo_elf64_def elf_consts)
  with d show ?thesis by blast
qed

end
