(* ===== verification/CString.thy ===== *)
theory CString
  imports Uefi
begin

text \<open>
  NUL-terminated strings in memory: the scan \<open>build_mb2_info\<close> makes over a module's name and
  \<open>wcslen\<close> of \<open>main.rs\<close>. A scan over memory without a terminator does not return, which is \<open>None\<close>.
\<close>

partial_function (option) c_strlen :: "memory \<Rightarrow> u64 \<Rightarrow> nat \<Rightarrow> nat option" where
  "c_strlen m a n = (if m (a + of_nat n) \<noteq> 0 then c_strlen m a (n + 1) else Some n)"

definition mem_u16 :: "memory \<Rightarrow> u64 \<Rightarrow> u16" where
  "mem_u16 m a = of_le (mem_read m a 2)"

partial_function (option) wcslen_from :: "memory \<Rightarrow> u64 \<Rightarrow> nat \<Rightarrow> nat option" where
  "wcslen_from m s n = (if mem_u16 m (s + of_nat (2 * n)) \<noteq> 0 then wcslen_from m s (n + 1) else Some n)"

definition wcslen :: "memory \<Rightarrow> u64 \<Rightarrow> nat option" where
  "wcslen m s = wcslen_from m s 0"

text \<open>\<open>bs\<close>, then a terminator, at \<open>a\<close>.\<close>

definition c_string :: "memory \<Rightarrow> u64 \<Rightarrow> bytes \<Rightarrow> bool" where
  "c_string m a bs \<longleftrightarrow> 0 \<notin> set bs \<and> mem_read m a (length bs + 1) = bs @ [0]"

lemma c_string_nth: "c_string m a bs \<Longrightarrow> i < length bs \<Longrightarrow> m (a + of_nat i) = bs ! i"
  unfolding c_string_def using nth_mem_read [of i "length bs + 1" m a] by (auto simp: nth_append)

lemma c_string_end: "c_string m a bs \<Longrightarrow> m (a + of_nat (length bs)) = 0"
  unfolding c_string_def using nth_mem_read [of "length bs" "length bs + 1" m a]
  by (metis less_add_one nth_append_length)

lemma c_stringI:
  "0 \<notin> set bs \<Longrightarrow> (\<And>i. i < length bs \<Longrightarrow> m (a + of_nat i) = bs ! i) \<Longrightarrow>
   m (a + of_nat (length bs)) = 0 \<Longrightarrow> c_string m a bs"
  unfolding c_string_def by (auto intro!: nth_equalityI simp: nth_append less_Suc_eq)

lemma c_string_cong:
  "c_string m a bs \<Longrightarrow> (\<And>i. i \<le> length bs \<Longrightarrow> m' (a + of_nat i) = m (a + of_nat i)) \<Longrightarrow> c_string m' a bs"
  by (rule c_stringI) (auto simp: c_string_nth c_string_end c_string_def)

lemma c_strlen_from:
  assumes "c_string m a bs"
  shows "n \<le> length bs \<Longrightarrow> c_strlen m a n = Some (length bs)"
proof (induction "length bs - n" arbitrary: n)
  case 0
  then show ?case using c_string_end [OF assms] by (subst c_strlen.simps) simp
next
  case (Suc k)
  then have "n < length bs" by simp
  then have "m (a + of_nat n) \<noteq> 0"
    using c_string_nth [OF assms, of n] assms by (auto simp: c_string_def in_set_conv_nth)
  moreover have "c_strlen m a (n + 1) = Some (length bs)"
    using Suc \<open>n < length bs\<close> by simp
  ultimately show ?case by (subst c_strlen.simps) simp
qed

lemma c_strlen_string: "c_string m a bs \<Longrightarrow> c_strlen m a 0 = Some (length bs)"
  using c_strlen_from [of m a bs 0] by simp

text \<open>What a string keeps out of reach of a write: the bytes it occupies.\<close>

lemma c_string_write:
  assumes "c_string m a bs" and "\<And>i. i \<le> length bs \<Longrightarrow> \<not> in_range b (length xs) (a + of_nat i)"
  shows "c_string (mem_write m b xs) a bs"
  by (rule c_string_cong [OF assms(1)]) (use assms(2) in simp)

lemma wcslen_from_eq:
  assumes "\<forall>i < k. mem_u16 m (s + of_nat (2 * i)) \<noteq> 0" and "mem_u16 m (s + of_nat (2 * k)) = 0"
  shows "n \<le> k \<Longrightarrow> wcslen_from m s n = Some k"
proof (induction "k - n" arbitrary: n)
  case 0
  then show ?case using assms(2) by (subst wcslen_from.simps) simp
next
  case (Suc j)
  then have "n < k" by simp
  with assms(1) Suc show ?case by (subst wcslen_from.simps) simp
qed

lemma wcslen_from_Some:
  assumes "wcslen_from m s n = Some k"
  shows "n \<le> k \<and> mem_u16 m (s + of_nat (2 * k)) = 0 \<and>
    (\<forall>i. n \<le> i \<longrightarrow> i < k \<longrightarrow> mem_u16 m (s + of_nat (2 * i)) \<noteq> 0)"
proof (rule wcslen_from.raw_induct [where P = "\<lambda>m s n k. n \<le> k \<and> mem_u16 m (s + of_nat (2 * k)) = 0 \<and>
    (\<forall>i. n \<le> i \<longrightarrow> i < k \<longrightarrow> mem_u16 m (s + of_nat (2 * i)) \<noteq> 0)", OF _ assms])
  fix f m s n k
  assume IH: "\<And>m s n k. f m s n = Some k \<Longrightarrow> n \<le> k \<and> mem_u16 m (s + of_nat (2 * k)) = 0 \<and>
      (\<forall>i. n \<le> i \<longrightarrow> i < k \<longrightarrow> mem_u16 m (s + of_nat (2 * i)) \<noteq> 0)"
    and eq: "(if mem_u16 m (s + of_nat (2 * n)) \<noteq> 0 then f m s (n + 1) else Some n) = Some k"
  show "n \<le> k \<and> mem_u16 m (s + of_nat (2 * k)) = 0 \<and>
      (\<forall>i. n \<le> i \<longrightarrow> i < k \<longrightarrow> mem_u16 m (s + of_nat (2 * i)) \<noteq> 0)"
  proof (cases "mem_u16 m (s + of_nat (2 * n)) = 0")
    case False
    with eq have "f m s (n + 1) = Some k" by simp
    from IH [OF this] False show ?thesis by (metis Suc_eq_plus1 Suc_leD not_less_eq_eq order_antisym)
  qed (use eq in simp)
qed

text \<open>
  \<open>wcslen\<close> returns \<open>k\<close> exactly if the unit at index \<open>k\<close> is the first zero one; over memory with
  no zero unit at an even distance it never returns.
\<close>

theorem wcslen_first_zero:
  "wcslen m s = Some k \<longleftrightarrow> mem_u16 m (s + of_nat (2 * k)) = 0 \<and>
     (\<forall>i < k. mem_u16 m (s + of_nat (2 * i)) \<noteq> 0)"
  unfolding wcslen_def using wcslen_from_Some [of m s 0 k] wcslen_from_eq [of k m s 0] by auto

end
