(* ===== verification/Modules.thy ===== *)
theory Modules
  imports CString DemoFirmware
begin

text \<open>
  \<open>modules.rs\<close>: loading every file of a directory as a boot module below 4 GiB, and the buffer
  \<open>MOD_NAMES\<close> that the modules' names are packed into.
\<close>

record module_info =
  name_ptr :: u64
  phys_start :: u64
  mod_size :: u64

section \<open>The name buffer\<close>

definition NAMES_CAP :: nat where "NAMES_CAP = 4096"

text \<open>\<open>if val < 128 { val as u8 } else { b'?' }\<close>\<close>

definition name_byte :: "u16 \<Rightarrow> u8" where
  "name_byte val = (if val < 128 then ucast val else 0x3F)"

fun store_chars :: "u64 \<Rightarrow> nat \<Rightarrow> u16 list \<Rightarrow> nat \<Rightarrow> memory \<Rightarrow> memory \<times> nat" where
  "store_chars buf pos [] written m = (m, written)"
| "store_chars buf pos (ch # name) written m =
     (if ch = 0 then (m, written)
      else if NAMES_CAP - 1 \<le> pos + written then (m, written)
      else store_chars buf pos name (written + 1)
        (mem_write m (buf + of_nat (pos + written)) [name_byte ch]))"

definition store_name :: "u16 list \<Rightarrow> 'f mach \<Rightarrow> u64 \<times> 'f mach" where
  "store_name name st =
     (let pos = MOD_NAMES_POS st; buf = MOD_NAMES st
      in if NAMES_CAP \<le> pos then (buf + of_nat (NAMES_CAP - 1), st)
         else (case store_chars buf pos name 0 (mem st) of (m, written) \<Rightarrow>
           (buf + of_nat pos,
            st\<lparr>mem := mem_write m (buf + of_nat (pos + written)) [0],
               MOD_NAMES_POS := pos + written + 1\<rparr>)))"

section \<open>Loading modules\<close>

datatype modules_panic = ModulesNoVolume | ModulesNoFileType | ModuleReadFailed

definition open_file_in_dir :: "'f firmware \<Rightarrow> handle \<Rightarrow> cstr16 \<Rightarrow> 'f \<Rightarrow> handle option \<times> 'f" where
  "open_file_in_dir F dir name f = dir_open F dir name f"

definition load_module :: "'f firmware \<Rightarrow> handle \<Rightarrow> dirent \<Rightarrow> 'f mach \<Rightarrow>
    (modules_panic + module_info option) \<times> 'f mach" where
  "load_module F dir entry st =
     (if is_directory entry then (Inr None, st)
      else if file_size entry = 0 then (Inr None, st)
      else
     (case open_file_in_dir F dir (file_name entry) (fw st) of
        (None, f) \<Rightarrow> (Inr None, st\<lparr>fw := f\<rparr>)
      | (Some h, f) \<Rightarrow>
     (case into_regular_file F h f of
        (None, f) \<Rightarrow> (Inr None, st\<lparr>fw := f\<rparr>)
      | (Some file, f) \<Rightarrow>
          let num_pages = (file_size entry + 4095) div 4096 in
     (case allocate_pages F (MaxAddress 0xFFFFFFFF) LOADER_DATA num_pages f of
        (None, f) \<Rightarrow> (Inr None, st\<lparr>fw := f\<rparr>)
      | (Some phys_addr, f) \<Rightarrow>
          let len = unat (num_pages * 4096);
              zeroed = mem_fill (mem st) phys_addr len 0 in
     (case file_read F file len f of
        (None, f) \<Rightarrow> (Inl ModuleReadFailed, st\<lparr>fw := f, mem := zeroed\<rparr>)
      | (Some bs, f) \<Rightarrow>
          let st = st\<lparr>fw := f, mem := mem_write zeroed phys_addr bs\<rparr>
          in if length bs \<noteq> unat (file_size entry) then (Inr None, st)
             else (case store_name (file_name entry @ [0]) st of (name, st) \<Rightarrow>
               (Inr (Some \<lparr>name_ptr = name, phys_start = phys_addr, mod_size = file_size entry\<rparr>), st)))))))"

partial_function (option) load_modules_loop :: "'f firmware \<Rightarrow> handle \<Rightarrow> 'f mach \<Rightarrow>
    module_info list \<Rightarrow> ((modules_panic + module_info list) \<times> 'f mach) option" where
  "load_modules_loop F dir st modules =
     (case read_entry F dir 512 (fw st) of
        (EntryOk (Some entry), f) \<Rightarrow>
          (case load_module F dir entry (st\<lparr>fw := f\<rparr>) of
             (Inl p, st') \<Rightarrow> Some (Inl p, st')
           | (Inr None, st') \<Rightarrow> load_modules_loop F dir st' modules
           | (Inr (Some m), st') \<Rightarrow> load_modules_loop F dir st' (modules @ [m]))
      | (EntryOk None, f) \<Rightarrow> Some (Inr modules, st\<lparr>fw := f\<rparr>)
      | (EntryErr err needed, f) \<Rightarrow>
          if err = BUFFER_TOO_SMALL then load_modules_loop F dir (st\<lparr>fw := f\<rparr>) modules
          else Some (Inr modules, st\<lparr>fw := f\<rparr>))"

definition load_modules :: "'f firmware \<Rightarrow> cstr16 \<Rightarrow> 'f mach \<Rightarrow>
    ((modules_panic + module_info list) \<times> 'f mach) option" where
  "load_modules F dir_path st =
     (case get_image_file_system F (fw st) of (None, f) \<Rightarrow> Some (Inr [], st\<lparr>fw := f\<rparr>) | (Some fs, f) \<Rightarrow>
     (case open_volume F fs f of (None, f) \<Rightarrow> Some (Inl ModulesNoVolume, st\<lparr>fw := f\<rparr>) | (Some root, f) \<Rightarrow>
     (case dir_open F root dir_path f of (None, f) \<Rightarrow> Some (Inr [], st\<lparr>fw := f\<rparr>) | (Some h, f) \<Rightarrow>
     (case into_type F h f of
        (None, f) \<Rightarrow> Some (Inl ModulesNoFileType, st\<lparr>fw := f\<rparr>)
      | (Some (Regular _), f) \<Rightarrow> Some (Inr [], st\<lparr>fw := f\<rparr>)
      | (Some (Dir d), f) \<Rightarrow> load_modules_loop F d (st\<lparr>fw := f\<rparr>) []))))"

section \<open>What the name buffer holds\<close>

definition ascii_name :: "u16 list \<Rightarrow> bytes" where
  "ascii_name name = map name_byte (takeWhile (\<lambda>ch. ch \<noteq> 0) name)"

definition stored_name :: "nat \<Rightarrow> u16 list \<Rightarrow> bytes" where
  "stored_name pos name = take (NAMES_CAP - 1 - pos) (ascii_name name)"

lemma ascii_name_nul: "ascii_name (name @ [0]) = ascii_name name"
  by (induction name) (auto simp: ascii_name_def)

lemma stored_name_nul: "stored_name pos (name @ [0]) = stored_name pos name"
  by (simp add: stored_name_def ascii_name_nul)

definition names_ok :: "'f mach \<Rightarrow> bool" where
  "names_ok st \<longleftrightarrow> MOD_NAMES_POS st \<le> NAMES_CAP \<and>
     (0 < MOD_NAMES_POS st \<longrightarrow> mem st (MOD_NAMES st + of_nat (MOD_NAMES_POS st - 1)) = 0)"

lemma name_byte_nonzero: "ch \<noteq> 0 \<Longrightarrow> name_byte ch \<noteq> 0"
proof -
  assume "ch \<noteq> 0"
  then have u: "0 < unat ch" by (simp add: unat_gt_0)
  show ?thesis
  proof (cases "ch < 128")
    case True
    then have "unat ch < 128" by (simp add: word_less_nat_alt)
    then have "unat (ucast ch :: u8) = unat ch"
      by (simp add: unsigned_ucast_eq take_bit_nat_eq_self)
    with u have "(ucast ch :: u8) \<noteq> 0" by auto
    with True show ?thesis by (simp add: name_byte_def)
  qed (simp add: name_byte_def)
qed

lemma stored_name_nonzero: "0 \<notin> set (stored_name pos name)"
proof -
  have "0 \<notin> set (ascii_name name)"
    using name_byte_nonzero by (fastforce simp: ascii_name_def dest: set_takeWhileD)
  then show ?thesis unfolding stored_name_def by (auto dest: in_set_takeD)
qed

lemma length_stored_name: "length (stored_name pos name) \<le> NAMES_CAP - 1 - pos"
  by (simp add: stored_name_def)

lemma store_chars_eq:
  "store_chars buf pos name w m =
    (mem_write m (buf + of_nat (pos + w)) (stored_name (pos + w) name),
     w + length (stored_name (pos + w) name))"
proof (induction name arbitrary: w m)
  case Nil
  then show ?case by (simp add: stored_name_def ascii_name_def)
next
  case (Cons ch name)
  show ?case
  proof (cases "ch = 0 \<or> NAMES_CAP - 1 \<le> pos + w")
    case True
    then show ?thesis by (auto simp: stored_name_def ascii_name_def)
  next
    case False
    then have s: "stored_name (pos + w) (ch # name) = name_byte ch # stored_name (pos + (w + 1)) name"
      by (auto simp: stored_name_def ascii_name_def take_Cons' diff_diff_left)
    have "length (stored_name (pos + (w + 1)) name) < 2 ^ 64"
      using length_stored_name [of "pos + (w + 1)" name] by (simp add: NAMES_CAP_def)
    then have "mem_write (mem_write m (buf + of_nat (pos + w)) [name_byte ch])
        (buf + of_nat (pos + w) + of_nat (length [name_byte ch])) (stored_name (pos + (w + 1)) name) =
      mem_write m (buf + of_nat (pos + w)) ([name_byte ch] @ stored_name (pos + (w + 1)) name)"
      by (intro mem_write_write) simp
    then show ?thesis using False s Cons.IH by (simp add: ac_simps)
  qed
qed

lemma store_name_eq:
  "store_name name st =
    (if NAMES_CAP \<le> MOD_NAMES_POS st then (MOD_NAMES st + of_nat (NAMES_CAP - 1), st)
     else (MOD_NAMES st + of_nat (MOD_NAMES_POS st),
       st\<lparr>mem := mem_write (mem st) (MOD_NAMES st + of_nat (MOD_NAMES_POS st))
            (stored_name (MOD_NAMES_POS st) name @ [0]),
          MOD_NAMES_POS := MOD_NAMES_POS st + length (stored_name (MOD_NAMES_POS st) name) + 1\<rparr>))"
proof -
  let ?s = "stored_name (MOD_NAMES_POS st) name"
  have "length ?s < 2 ^ 64"
    using length_stored_name [of "MOD_NAMES_POS st" name] by (simp add: NAMES_CAP_def)
  then have "mem_write (mem_write m a ?s) (a + of_nat (length ?s)) [0] = mem_write m a (?s @ [0])" for m a
    by (intro mem_write_write) simp
  then show ?thesis
    by (simp add: store_name_def store_chars_eq Let_def flip: add.assoc)
qed

text \<open>Where a name ends up, and what storing it leaves alone.\<close>

definition name_at :: "'f mach \<Rightarrow> u64 \<Rightarrow> bytes \<Rightarrow> bool" where
  "name_at st p bs \<longleftrightarrow> c_string (mem st) p bs \<and>
     (\<exists>i. p = MOD_NAMES st + of_nat i \<and> i + length bs < MOD_NAMES_POS st)"

definition names_range :: "'f mach \<Rightarrow> u64 set" where
  "names_range st = {x. in_range (MOD_NAMES st) NAMES_CAP x}"

lemma store_name_result:
  assumes "names_ok st" and "store_name name st = (p, st')"
  shows "name_at st' p (stored_name (MOD_NAMES_POS st) name)" and "names_ok st'"
    and "MOD_NAMES_POS st \<le> MOD_NAMES_POS st'"
    and "i < MOD_NAMES_POS st \<Longrightarrow> mem st' (MOD_NAMES st + of_nat i) = mem st (MOD_NAMES st + of_nat i)"
    and "x \<notin> names_range st \<Longrightarrow> mem st' x = mem st x"
    and "MOD_NAMES st' = MOD_NAMES st" and "fw st' = fw st" and "INFO_AT st' = INFO_AT st"
proof -
  let ?pos = "MOD_NAMES_POS st" and ?buf = "MOD_NAMES st"
  let ?s = "stored_name ?pos name"
  have "name_at st' p ?s \<and> names_ok st' \<and> ?pos \<le> MOD_NAMES_POS st' \<and>
    (\<forall>i < ?pos. mem st' (?buf + of_nat i) = mem st (?buf + of_nat i)) \<and>
    (\<forall>x. x \<notin> names_range st \<longrightarrow> mem st' x = mem st x)"
  proof (cases "NAMES_CAP \<le> ?pos")
    case True
    with assms(1) have pos: "?pos = NAMES_CAP" by (simp add: names_ok_def)
    then have "?s = []" by (simp add: stored_name_def)
    moreover have "c_string (mem st) (?buf + of_nat (NAMES_CAP - 1)) []"
      using assms(1) pos by (intro c_stringI) (simp_all add: names_ok_def NAMES_CAP_def)
    ultimately show ?thesis
      using assms pos True
      by (auto simp: store_name_eq name_at_def NAMES_CAP_def intro!: exI [of _ 4095])
  next
    case False
    have l: "?pos + length ?s + 1 \<le> NAMES_CAP"
      using length_stored_name [of ?pos name] False by simp
    have small: "NAMES_CAP < 2 ^ 64" by (simp add: NAMES_CAP_def)
    have p: "p = ?buf + of_nat ?pos" and st': "st' = st\<lparr>mem := mem_write (mem st) (?buf + of_nat ?pos)
        (?s @ [0]), MOD_NAMES_POS := ?pos + length ?s + 1\<rparr>"
      using assms(2) False by (auto simp: store_name_eq)
    have w: "mem st' (?buf + of_nat i) = (if ?pos \<le> i \<and> i < ?pos + length (?s @ [0])
        then (?s @ [0]) ! (i - ?pos) else mem st (?buf + of_nat i))" if "i < 2 ^ 64" for i
      using mem_write_at [of ?pos "?s @ [0]" i "mem st" ?buf] l small that by (simp add: st')
    have cs: "c_string (mem st') p ?s"
    proof (rule c_stringI [OF stored_name_nonzero])
      fix i assume "i < length ?s"
      then show "mem st' (p + of_nat i) = ?s ! i"
        using w [of "?pos + i"] l small by (simp add: p add.assoc nth_append)
    next
      show "mem st' (p + of_nat (length ?s)) = 0"
        using w [of "?pos + length ?s"] l small by (simp add: p add.assoc nth_append)
    qed
    have "mem st' (?buf + of_nat (?pos + length ?s)) = 0"
      using w [of "?pos + length ?s"] l small by (simp add: nth_append)
    then have "names_ok st'" using l by (simp add: names_ok_def st')
    moreover have "mem st' x = mem st x" if "x \<notin> names_range st" for x
    proof -
      obtain i where x: "x = ?buf + of_nat i" "i < 2 ^ 64" by (rule offset_exhaust)
      then have "NAMES_CAP \<le> i" using that by (simp add: names_range_def)
      with w [OF x(2)] l show ?thesis unfolding x(1) by simp
    qed
    moreover have "mem st' (?buf + of_nat i) = mem st (?buf + of_nat i)" if "i < ?pos" for i
      using w [of i] that False small by simp
    moreover have "MOD_NAMES st' = ?buf" "MOD_NAMES_POS st' = ?pos + length ?s + 1"
      by (simp_all add: st')
    ultimately show ?thesis using cs p unfolding name_at_def by auto
  qed
  then show "name_at st' p ?s" "names_ok st'" "?pos \<le> MOD_NAMES_POS st'"
    "i < ?pos \<Longrightarrow> mem st' (?buf + of_nat i) = mem st (?buf + of_nat i)"
    "x \<notin> names_range st \<Longrightarrow> mem st' x = mem st x" by blast+
  show "MOD_NAMES st' = MOD_NAMES st" "fw st' = fw st" "INFO_AT st' = INFO_AT st"
    using assms(2) by (auto simp: store_name_eq split: if_splits)
qed

section \<open>What a loaded module is\<close>

text \<open>
  A module's pages hold the bytes the firmware delivered for it, zero-padded; they are memory handed
  out to the loader, outside the name buffer and below 4 GiB; its name is in the name buffer. A file
  here is the name of its directory entry and its bytes.
\<close>

type_synonym module_file = "cstr16 \<times> bytes"

definition module_pages :: "module_info \<Rightarrow> usize" where
  "module_pages mi = (mod_size mi + 4095) div 4096"

definition module_holds :: "('f \<Rightarrow> u64 set) \<Rightarrow> 'f mach \<Rightarrow> module_info \<Rightarrow> module_file \<Rightarrow> bool" where
  "module_holds owned st mi mf \<longleftrightarrow> (case mf of (name, data) \<Rightarrow>
     (\<exists>pos. name_at st (name_ptr mi) (stored_name pos name)) \<and>
     mod_size mi = of_nat (length data) \<and> length data \<le> unat (module_pages mi) * 4096 \<and>
     unat (phys_start mi) + unat (module_pages mi) * 4096 \<le> 2 ^ 32 \<and>
     (\<forall>i < unat (module_pages mi) * 4096. mem st (phys_start mi + of_nat i) =
        (if i < length data then data ! i else 0)) \<and>
     page_range (phys_start mi) (module_pages mi) \<subseteq> owned (fw st) - names_range st)"

definition read_contract :: "'f firmware \<Rightarrow> bool" where
  "read_contract F \<longleftrightarrow> (\<forall>h n f bs. fst (file_read F h n f) = Some bs \<longrightarrow> length bs \<le> n)"

definition delivered :: "'f firmware \<Rightarrow> bytes \<Rightarrow> bool" where
  "delivered F bs \<longleftrightarrow> (\<exists>h n f. fst (file_read F h n f) = Some bs)"

text \<open>
  One step of the loader that leaves everything loaded so far in place: it changes only memory
  that was not handed out before and is now, and the unused end of the name buffer.
\<close>

definition keeps :: "('f \<Rightarrow> u64 set) \<Rightarrow> 'f mach \<Rightarrow> 'f mach \<Rightarrow> bool" where
  "keeps owned st st' \<longleftrightarrow> owned (fw st) \<subseteq> owned (fw st') \<and> MOD_NAMES st' = MOD_NAMES st \<and>
     INFO_AT st' = INFO_AT st \<and> MOD_NAMES_POS st \<le> MOD_NAMES_POS st' \<and>
     (\<forall>x \<in> owned (fw st) - names_range st. mem st' x = mem st x) \<and>
     (\<forall>x. x \<notin> owned (fw st') \<longrightarrow> x \<notin> names_range st \<longrightarrow> mem st' x = mem st x) \<and>
     (\<forall>i < MOD_NAMES_POS st. mem st' (MOD_NAMES st + of_nat i) = mem st (MOD_NAMES st + of_nat i))"

definition names_safe :: "('f \<Rightarrow> u64 set) \<Rightarrow> 'f mach \<Rightarrow> bool" where
  "names_safe owned st \<longleftrightarrow> names_ok st \<and> names_range st \<subseteq> owned (fw st)"

lemma keeps_refl: "keeps owned st st"
  by (simp add: keeps_def)

lemma keeps_trans: "keeps owned st1 st2 \<Longrightarrow> keeps owned st2 st3 \<Longrightarrow> keeps owned st1 st3"
  unfolding keeps_def names_range_def by (auto simp: subset_iff)

lemma name_at_keeps: "keeps owned st st' \<Longrightarrow> name_at st p bs \<Longrightarrow> name_at st' p bs"
  unfolding name_at_def keeps_def
  by (auto intro!: c_string_cong [of "mem st"] simp: add.assoc simp flip: of_nat_add)

lemma module_holds_keeps:
  assumes "keeps owned st st'" and "module_holds owned st mi mf"
  shows "module_holds owned st' mi mf"
proof -
  obtain name data where mf: "mf = (name, data)" by force
  have "phys_start mi + of_nat i \<in> page_range (phys_start mi) (module_pages mi)"
    if "i < unat (module_pages mi) * 4096" for i
    using that assms(2) by (simp add: mf module_holds_def page_range_def in_range_def unat_offset)
  then have "phys_start mi + of_nat i \<in> owned (fw st) - names_range st"
    if "i < unat (module_pages mi) * 4096" for i
    using that assms(2) by (auto simp: module_holds_def mf)
  then have "mem st' (phys_start mi + of_nat i) = mem st (phys_start mi + of_nat i)"
    if "i < unat (module_pages mi) * 4096" for i
    using that assms(1) by (simp add: keeps_def)
  with assms name_at_keeps [OF assms(1)] show ?thesis
    unfolding module_holds_def mf by (auto simp: keeps_def names_range_def)
qed

section \<open>What loading one file does\<close>

lemma round_up_pages:
  fixes len :: u64
  assumes "n = (len + 4095) div 4096"
  shows "unat (n * 4096) = unat n * 4096" and "unat n * 4096 < 2 ^ 64"
proof -
  have "unat n * 4096 \<le> unat (len + 4095)" by (simp add: assms unat_div)
  then show b: "unat n * 4096 < 2 ^ 64" using unat_u64_bound [of "len + 4095"] by simp
  then show "unat (n * 4096) = unat n * 4096" using unat_mult_no_overflow [of n 4096] by simp
qed

lemma keeps_fw:
  "owned (fw st) \<subseteq> owned f \<Longrightarrow> keeps owned st (st\<lparr>fw := f\<rparr>)"
  by (simp add: keeps_def)

lemma names_safe_fw:
  "owned (fw st) \<subseteq> owned f \<Longrightarrow> names_safe owned st \<Longrightarrow> names_safe owned (st\<lparr>fw := f\<rparr>)"
  by (auto simp: names_safe_def names_ok_def names_range_def)

text \<open>Filling newly granted pages keeps everything.\<close>

lemma keeps_fill:
  assumes safe: "names_safe owned st"
    and new: "page_range p n \<subseteq> owned f" "page_range p n \<inter> owned (fw st) = {}"
    and grow: "owned (fw st) \<subseteq> owned f"
    and m: "\<And>x. x \<notin> page_range p n \<Longrightarrow> m x = mem st x"
  shows "keeps owned st (st\<lparr>fw := f, mem := m\<rparr>)" and "names_safe owned (st\<lparr>fw := f, mem := m\<rparr>)"
    and "names_range (st\<lparr>fw := f, mem := m\<rparr>) = names_range st"
proof -
  have names: "m (MOD_NAMES st + of_nat i) = mem st (MOD_NAMES st + of_nat i)" if "i < NAMES_CAP" for i
  proof (rule m)
    have "MOD_NAMES st + of_nat i \<in> names_range st"
      using that by (simp add: names_range_def NAMES_CAP_def)
    with safe new(2) show "MOD_NAMES st + of_nat i \<notin> page_range p n"
      by (auto simp: names_safe_def)
  qed
  have pos: "MOD_NAMES_POS st \<le> NAMES_CAP" using safe by (simp add: names_safe_def names_ok_def)
  have same: "m x = mem st x" if "x \<in> owned (fw st) \<or> x \<notin> owned f" for x
    using that new m by blast
  show "keeps owned st (st\<lparr>fw := f, mem := m\<rparr>)"
    unfolding keeps_def using grow names pos same by auto
  show "names_safe owned (st\<lparr>fw := f, mem := m\<rparr>)"
    using safe grow names [of "MOD_NAMES_POS st - 1"] pos
    by (cases "MOD_NAMES_POS st = 0") (auto simp: names_safe_def names_ok_def names_range_def)
  show "names_range (st\<lparr>fw := f, mem := m\<rparr>) = names_range st" by (simp add: names_range_def)
qed

lemma keeps_store_name:
  assumes "names_safe owned st" and "store_name name st = (p, st')"
  shows "keeps owned st st'" and "names_safe owned st'" and "names_range st' = names_range st"
proof -
  have ok: "names_ok st" using assms(1) by (simp add: names_safe_def)
  note r = store_name_result [OF ok assms(2)]
  show n: "names_range st' = names_range st" using r(6) by (simp add: names_range_def)
  show "keeps owned st st'" unfolding keeps_def using r by auto
  show "names_safe owned st'" using assms(1) r(2,7) n by (simp add: names_safe_def)
qed

lemma new_module_holds:
  fixes len :: u64
  assumes safe: "names_safe owned st"
    and new: "page_range p n \<subseteq> owned f" "page_range p n \<inter> owned (fw st) = {}"
    and grow: "owned (fw st) \<subseteq> owned f"
    and n: "n = (len + 4095) div 4096" and low: "unat p + unat n * 4096 \<le> 2 ^ 32"
    and len: "length bs = unat len" "length bs \<le> unat n * 4096"
    and st1: "st1 = st\<lparr>fw := f, mem := mem_write (mem_fill (mem st) p (unat n * 4096) 0) p bs\<rparr>"
    and store: "store_name (name @ [0]) st1 = (q, st')"
  shows "keeps owned st st'" and "names_safe owned st'"
    and "module_holds owned st' \<lparr>name_ptr = q, phys_start = p, mod_size = len\<rparr> (name, bs)"
proof -
  have b: "unat n * 4096 < 2 ^ 64" by (rule round_up_pages(2) [OF n])
  have "mem_write (mem_fill (mem st) p (unat n * 4096) 0) p bs x = mem st x" if "x \<notin> page_range p n" for x
    using that len(2) by (auto simp: page_range_def in_range_def mem_write_def mem_fill_def)
  note f = keeps_fill [OF safe new grow this, folded st1]
  note s = keeps_store_name [OF f(2) store]
  show "keeps owned st st'" by (rule keeps_trans [OF f(1) s(1)])
  show "names_safe owned st'" by (rule s(2))
  have byte: "mem st1 (p + of_nat i) = (if i < length bs then bs ! i else 0)" if "i < unat n * 4096" for i
    using that b by (auto simp: st1 mem_write_def mem_fill_def unat_offset)
  have disj: "page_range p n \<inter> names_range st = {}"
    using safe new(2) by (auto simp: names_safe_def)
  have "mem st' (p + of_nat i) = mem st1 (p + of_nat i)" if "i < unat n * 4096" for i
  proof -
    have "p + of_nat i \<in> page_range p n"
      using that b by (simp add: page_range_def)
    then have "p + of_nat i \<in> owned (fw st1) - names_range st1"
      using new(1) disj f(3) by (auto simp: st1)
    then show ?thesis using s(1) unfolding keeps_def by blast
  qed
  moreover have "name_at st' q (stored_name (MOD_NAMES_POS st1) name)"
    using store_name_result(1) [OF _ store] f(2)
    by (simp add: names_safe_def stored_name_nul)
  moreover have "page_range p n \<subseteq> owned (fw st') - names_range st'"
    using new(1) disj s(1,3) f(3) by (auto simp: keeps_def st1)
  moreover have "len = of_nat (length bs)" using len(1) by simp
  ultimately show "module_holds owned st' \<lparr>name_ptr = q, phys_start = p, mod_size = len\<rparr> (name, bs)"
    using byte low len(2) unfolding module_holds_def module_pages_def n by auto
qed

section \<open>One step of the loop\<close>

definition modules_contract :: "'f firmware \<Rightarrow> ('f \<Rightarrow> u64 set) \<Rightarrow> bool" where
  "modules_contract F owned \<longleftrightarrow> alloc_contract F owned \<and> max_address_contract F \<and>
     files_contract F owned \<and> read_contract F"

definition step_ok ::
    "'f firmware \<Rightarrow> ('f \<Rightarrow> u64 set) \<Rightarrow> dirent \<Rightarrow> 'f mach \<Rightarrow>
     (modules_panic + module_info option) \<times> 'f mach \<Rightarrow> bool" where
  "step_ok F owned entry st r \<longleftrightarrow> keeps owned st (snd r) \<and> names_safe owned (snd r) \<and>
     (\<forall>mi. fst r = Inr (Some mi) \<longrightarrow> (\<exists>data. delivered F data \<and>
        module_holds owned (snd r) mi (file_name entry, data)) \<and>
        page_range (phys_start mi) (module_pages mi) \<inter> owned (fw st) = {})"

lemma step_ok_fw:
  "names_safe owned st \<Longrightarrow> owned (fw st) \<subseteq> owned f \<Longrightarrow> step_ok F owned entry st (Inr None, st\<lparr>fw := f\<rparr>)"
  by (simp add: step_ok_def keeps_fw names_safe_fw)

text \<open>The part of \<open>load_module\<close> that follows the allocation.\<close>

lemma step_ok_allocated:
  assumes contract: "modules_contract F owned" and safe: "names_safe owned st"
    and f0: "owned f0 = owned (fw st)" and n: "n = (file_size entry + 4095) div 4096"
    and alloc: "allocate_pages F (MaxAddress 0xFFFFFFFF) LOADER_DATA n f0 = (Some p, f1)"
    and read: "file_read F h (unat (n * 4096)) f1 = (rd, f2)"
    and zeroed: "zeroed = mem_fill (mem st) p (unat (n * 4096)) 0"
  shows "rd = None \<Longrightarrow> step_ok F owned entry st (Inl ModuleReadFailed, st\<lparr>fw := f2, mem := zeroed\<rparr>)"
    and "rd = Some bs \<Longrightarrow> step_ok F owned entry st (Inr None, st\<lparr>fw := f2, mem := mem_write zeroed p bs\<rparr>)"
    and "rd = Some bs \<Longrightarrow> length bs = unat (file_size entry) \<Longrightarrow>
      store_name (file_name entry @ [0]) (st\<lparr>fw := f2, mem := mem_write zeroed p bs\<rparr>) = (q, st') \<Longrightarrow>
      step_ok F owned entry st
        (Inr (Some \<lparr>name_ptr = q, phys_start = p, mod_size = file_size entry\<rparr>), st')"
proof -
  have c: "alloc_contract F owned" "max_address_contract F" "files_contract F owned" "read_contract F"
    using contract by (simp_all add: modules_contract_def)
  note size = round_up_pages [OF n]
  have f2: "owned f2 = owned f1" by (rule files_contractD(7) [OF c(3) read])
  have new: "page_range p n \<subseteq> owned f2" "page_range p n \<inter> owned (fw st) = {}"
    and grow: "owned (fw st) \<subseteq> owned f2"
    using alloc_contract_new [OF c(1) alloc] alloc_contract_owned [OF c(1) alloc] f0 f2 by auto
  have low: "unat p + unat n * 4096 \<le> 2 ^ 32"
    using max_address_bound [OF c(2) alloc] by simp
  note low = this
  have rd: "length bs \<le> unat n * 4096" if "rd = Some bs" for bs
    using c(4) [unfolded read_contract_def, rule_format, of h "unat (n * 4096)" f1 bs] read that size(1)
    by simp
  have out: "mem_write zeroed p bs x = mem st x" if "x \<notin> page_range p n" "length bs \<le> unat n * 4096" for x bs
    using that size by (auto simp: zeroed page_range_def in_range_def mem_write_def mem_fill_def)
  have zero: "zeroed x = mem st x" if "x \<notin> page_range p n" for x
    using that size by (auto simp: zeroed page_range_def in_range_def mem_fill_def)
  show "rd = None \<Longrightarrow> step_ok F owned entry st (Inl ModuleReadFailed, st\<lparr>fw := f2, mem := zeroed\<rparr>)"
    using keeps_fill [OF safe new grow zero] by (simp add: step_ok_def)
  show "rd = Some bs \<Longrightarrow> step_ok F owned entry st (Inr None, st\<lparr>fw := f2, mem := mem_write zeroed p bs\<rparr>)"
    using keeps_fill [OF safe new grow out] rd by (simp add: step_ok_def)
  assume bs: "rd = Some bs" "length bs = unat (file_size entry)"
    and store: "store_name (file_name entry @ [0]) (st\<lparr>fw := f2, mem := mem_write zeroed p bs\<rparr>) = (q, st')"
  have "fst (file_read F h (unat (n * 4096)) f1) = Some bs" using read bs(1) by simp
  then have d: "delivered F bs" unfolding delivered_def by blast
  have st1: "st\<lparr>fw := f2, mem := mem_write zeroed p bs\<rparr> =
      st\<lparr>fw := f2, mem := mem_write (mem_fill (mem st) p (unat n * 4096) 0) p bs\<rparr>"
    by (simp add: zeroed size(1))
  note k = new_module_holds [OF safe new grow n _ bs(2) rd [OF bs(1)] st1 store]
  from k low d new(2) n show "step_ok F owned entry st
        (Inr (Some \<lparr>name_ptr = q, phys_start = p, mod_size = file_size entry\<rparr>), st')"
    by (auto simp: step_ok_def module_pages_def)
qed

lemma load_module_step:
  assumes contract: "modules_contract F owned" and safe: "names_safe owned st"
  shows "step_ok F owned entry st (load_module F dir entry st)"
proof (cases "is_directory entry \<or> file_size entry = 0")
  case True
  then show ?thesis using safe by (auto simp: load_module_def step_ok_def keeps_refl)
next
  case False
  have c: "files_contract F owned" "alloc_contract F owned"
    using contract by (simp_all add: modules_contract_def)
  obtain ho f1 where o1: "dir_open F dir (file_name entry) (fw st) = (ho, f1)" by force
  note f1 = files_contractD(3) [OF c(1) o1]
  show ?thesis
  proof (cases ho)
    case None
    with False o1 f1 safe show ?thesis by (simp add: load_module_def open_file_in_dir_def step_ok_fw)
  next
    case (Some h)
    obtain fo f2 where o2: "into_regular_file F h f1 = (fo, f2)" by force
    have f2: "owned f2 = owned (fw st)" using files_contractD(4) [OF c(1) o2] f1 by simp
    show ?thesis
    proof (cases fo)
      case None
      with False o1 o2 Some f2 safe show ?thesis
        by (simp add: load_module_def open_file_in_dir_def step_ok_fw)
    next
      case fs: (Some fh)
      let ?n = "(file_size entry + 4095) div 4096"
      obtain po f3 where o3: "allocate_pages F (MaxAddress 0xFFFFFFFF) LOADER_DATA ?n f2 = (po, f3)"
        by force
      show ?thesis
      proof (cases po)
        case None
        have "owned (fw st) \<subseteq> owned f3" using alloc_contract_owned [OF c(2) o3] f2 by simp
        with False o1 o2 o3 Some fs None safe show ?thesis
          by (simp add: load_module_def open_file_in_dir_def step_ok_fw)
      next
        case p: (Some p)
        obtain rd f4 where o4: "file_read F fh (unat (?n * 4096)) f3 = (rd, f4)" by force
        note k = step_ok_allocated [OF contract safe f2 refl o3 [unfolded p] o4 refl]
        show ?thesis
          using False o1 o2 o3 o4 Some fs p k(1) k(2) k(3)
          by (cases rd) (auto simp: load_module_def open_file_in_dir_def Let_def split: prod.splits)
      qed
    qed
  qed
qed

section \<open>The loop\<close>

text \<open>What the modules loaded so far amount to: each holds a delivered file, and no two share a page.\<close>

definition modules_held :: "'f firmware \<Rightarrow> ('f \<Rightarrow> u64 set) \<Rightarrow> 'f mach \<Rightarrow> module_info list \<Rightarrow> bool" where
  "modules_held F owned st ms \<longleftrightarrow>
     (\<exists>files. list_all2 (module_holds owned st) ms files \<and> (\<forall>mf \<in> set files. delivered F (snd mf))) \<and>
     sorted_wrt (\<lambda>a b. page_range (phys_start a) (module_pages a) \<inter>
       page_range (phys_start b) (module_pages b) = {}) ms"

lemma modules_held_Nil: "modules_held F owned st []"
  by (simp add: modules_held_def)

lemma modules_held_keeps:
  assumes "keeps owned st st'" and "modules_held F owned st ms"
  shows "modules_held F owned st' ms"
  using assms module_holds_keeps [OF assms(1)] unfolding modules_held_def
  by (blast intro: list_all2_mono)

lemma list_all2_ex: "list_all2 P xs ys \<Longrightarrow> x \<in> set xs \<Longrightarrow> \<exists>y. P x y"
  by (auto simp: list_all2_conv_all_nth in_set_conv_nth)

lemma modules_held_pages:
  assumes "modules_held F owned st ms" and "m \<in> set ms"
  shows "page_range (phys_start m) (module_pages m) \<subseteq> owned (fw st) - names_range st"
proof -
  obtain files where "list_all2 (module_holds owned st) ms files"
    using assms(1) unfolding modules_held_def by blast
  then obtain mf where "module_holds owned st m mf" using list_all2_ex assms(2) by metis
  then show ?thesis by (auto simp: module_holds_def split: prod.splits)
qed

lemma modules_held_step:
  assumes held: "modules_held F owned st ms" and step: "step_ok F owned entry st (Inr (Some m), st')"
  shows "modules_held F owned st' (ms @ [m])"
proof -
  have "modules_held F owned st' ms"
    using step held by (auto simp: step_ok_def intro: modules_held_keeps)
  then obtain files where "list_all2 (module_holds owned st') ms files"
      "\<forall>mf \<in> set files. delivered F (snd mf)" and
    d: "sorted_wrt (\<lambda>a b. page_range (phys_start a) (module_pages a) \<inter>
       page_range (phys_start b) (module_pages b) = {}) ms"
    unfolding modules_held_def by blast
  moreover obtain data where "delivered F data" "module_holds owned st' m (file_name entry, data)"
    using step by (auto simp: step_ok_def)
  ultimately have "\<exists>files. list_all2 (module_holds owned st') (ms @ [m]) files \<and>
      (\<forall>mf \<in> set files. delivered F (snd mf))"
    by (intro exI [of _ "files @ [(file_name entry, data)]"]) (auto simp: list_all2_appendI)
  moreover have "page_range (phys_start m') (module_pages m') \<inter>
      page_range (phys_start m) (module_pages m) = {}" if "m' \<in> set ms" for m'
    using modules_held_pages [OF held that] step by (fastforce simp: step_ok_def)
  ultimately show ?thesis using d by (simp add: modules_held_def sorted_wrt_append)
qed

text \<open>The whole run of the loop, from a state whose name buffer is the loader's own memory.\<close>

definition loop_ok ::
    "'f firmware \<Rightarrow> ('f \<Rightarrow> u64 set) \<Rightarrow> 'f mach \<Rightarrow> (modules_panic + module_info list) \<times> 'f mach \<Rightarrow> bool" where
  "loop_ok F owned st r \<longleftrightarrow> keeps owned st (snd r) \<and> names_safe owned (snd r) \<and>
     (\<forall>ms. fst r = Inr ms \<longrightarrow> modules_held F owned (snd r) ms)"

lemma loop_ok_end:
  assumes "names_safe owned st" and "owned f = owned (fw st)" and "modules_held F owned st ms"
  shows "loop_ok F owned st (Inr ms, st\<lparr>fw := f\<rparr>)"
  using keeps_fw [of owned st f] names_safe_fw [of owned st f] assms
  by (auto simp: loop_ok_def intro: modules_held_keeps)

lemma loop_ok_trans:
  "keeps owned st st' \<Longrightarrow> loop_ok F owned st' r \<Longrightarrow> loop_ok F owned st r"
  using keeps_trans unfolding loop_ok_def by blast

lemma load_modules_loop_rule:
  assumes contract: "modules_contract F owned"
    and run: "load_modules_loop F dir st ms = Some r"
    and safe: "names_safe owned st" and held: "modules_held F owned st ms"
  shows "loop_ok F owned st r"
proof -
  have "names_safe owned st \<longrightarrow> modules_held F owned st ms \<longrightarrow> modules_contract F owned \<longrightarrow> loop_ok F owned st r"
    using run
  proof (induction rule: load_modules_loop.raw_induct [rotated, consumes 1, case_names step])
    case (step loop F dir st ms r)
    note IH = step(1) and run = step(2)
    show ?case
    proof (intro impI)
      assume safe: "names_safe owned st" and held: "modules_held F owned st ms"
        and contract: "modules_contract F owned"
      have c: "files_contract F owned" using contract by (simp add: modules_contract_def)
      obtain e f where e: "read_entry F dir 512 (fw st) = (e, f)" by force
      have f: "owned f = owned (fw st)" by (rule files_contractD(8) [OF c e])
      let ?st = "st\<lparr>fw := f\<rparr>"
      have k: "keeps owned st ?st" "names_safe owned ?st" "modules_held F owned ?st ms"
        using keeps_fw [of owned st f] names_safe_fw [of owned st f] safe held f
        by (auto intro: modules_held_keeps)
      have fin: "loop_ok F owned st (Inr ms, ?st)" by (rule loop_ok_end [OF safe f held])
      show "loop_ok F owned st r"
      proof (cases e)
        case (EntryErr err needed)
        then show ?thesis
          using run e fin IH [of F dir ?st ms r] k contract
          by (auto split: if_splits intro: loop_ok_trans)
      next
        case (EntryOk eo)
        show ?thesis
        proof (cases eo)
          case None
          with run e EntryOk fin show ?thesis by auto
        next
          case (Some entry)
          obtain res st' where res: "load_module F dir entry ?st = (res, st')" by force
          have ok: "step_ok F owned entry ?st (res, st')"
            using load_module_step [OF contract k(2)] res by metis
          then have k': "keeps owned st st'" "names_safe owned st'" "modules_held F owned st' ms"
            using k by (auto simp: step_ok_def intro: keeps_trans modules_held_keeps)
          have r: "(case res of Inl p \<Rightarrow> Some (Inl p, st') | Inr None \<Rightarrow> loop F dir st' ms
              | Inr (Some m) \<Rightarrow> loop F dir st' (ms @ [m])) = Some r"
            using run e EntryOk Some res by (simp split: sum.splits option.splits)
          show ?thesis
          proof (cases res)
            case (Inl p)
            with r k' show ?thesis by (auto simp: loop_ok_def)
          next
            case (Inr mo)
            show ?thesis
            proof (cases mo)
              case None
              with r Inr IH [of F dir st' ms r] k' contract show ?thesis by (auto intro: loop_ok_trans)
            next
              case (Some m)
              have "modules_held F owned st' (ms @ [m])"
                using modules_held_step [OF k(3)] ok Inr Some by simp
              with r Inr Some IH [of F dir st' "ms @ [m]" r] k' contract show ?thesis
                by (auto intro: loop_ok_trans)
            qed
          qed
        qed
      qed
    qed
  qed
  with safe held contract show ?thesis by blast
qed

lemma load_modules_rule:
  assumes contract: "modules_contract F owned" and safe: "names_safe owned st"
    and run: "load_modules F dir_path st = Some r"
  shows "loop_ok F owned st r"
proof -
  have c: "files_contract F owned" using contract by (simp add: modules_contract_def)
  have early: "loop_ok F owned st (Inl p, st\<lparr>fw := f\<rparr>)" "loop_ok F owned st (Inr [], st\<lparr>fw := f\<rparr>)"
    if "owned f = owned (fw st)" for f p
    using keeps_fw [of owned st f] names_safe_fw [of owned st f] safe that
    by (simp_all add: loop_ok_def modules_held_Nil)
  have loop: "loop_ok F owned st r"
    if "owned f = owned (fw st)" "load_modules_loop F d (st\<lparr>fw := f\<rparr>) [] = Some r" for f d
    using keeps_fw [of owned st f] names_safe_fw [of owned st f] safe that
      load_modules_loop_rule [OF contract that(2)]
    by (auto simp: modules_held_Nil intro: loop_ok_trans)
  obtain a f1 where a: "get_image_file_system F (fw st) = (a, f1)" by force
  have f1: "owned f1 = owned (fw st)" by (rule files_contractD(1) [OF c a])
  obtain b f2 where b: "open_volume F (the a) f1 = (b, f2)" by force
  have f2: "owned f2 = owned (fw st)" using files_contractD(2) [OF c b] f1 by simp
  obtain d f3 where d: "dir_open F (the b) dir_path f2 = (d, f3)" by force
  have f3: "owned f3 = owned (fw st)" using files_contractD(3) [OF c d] f2 by simp
  obtain e f4 where e: "into_type F (the d) f3 = (e, f4)" by force
  have f4: "owned f4 = owned (fw st)" using files_contractD(5) [OF c e] f3 by simp
  show ?thesis
    using run a b d e early [OF f1] early [OF f2] early [OF f3] early [OF f4] loop [OF f4]
    by (cases a; cases b; cases d; cases e)
      (auto simp: load_modules_def split: file_type.splits)
qed

text \<open>
  C31: \<open>store_name\<close>. The bytes at the returned address are the name's characters up to its NUL,
  each one outside ASCII replaced by a question mark, cut where the 4096-byte buffer ends, and a
  NUL; names stored before it are still there, and nothing outside the buffer changes.
\<close>

theorem store_name_spec:
  assumes "names_ok st" and "store_name name st = (p, st')"
  shows "c_string (mem st') p (stored_name (MOD_NAMES_POS st) name) \<and> names_ok st' \<and>
    (\<forall>q bs. name_at st q bs \<longrightarrow> name_at st' q bs) \<and>
    (\<forall>x. x \<notin> names_range st \<longrightarrow> mem st' x = mem st x)"
proof -
  note r = store_name_result [OF assms]
  have "keeps (\<lambda>_. {}) st st'" using r(3-6,8) by (simp add: keeps_def)
  with r(1,2,5) show ?thesis by (auto simp: name_at_def [of st' p] intro: name_at_keeps)
qed

lemma demo_names_ok: "names_ok demo_mach"
  by (simp add: names_ok_def demo_mach_def)

theorem store_name_spec_witness:
  "c_string (mem (snd (store_name [0x61, 0xE9, 0] demo_mach))) 0x7F000000 [0x61, 0x3F]"
proof -
  have "store_name [0x61, 0xE9, 0] demo_mach = (0x7F000000, snd (store_name [0x61, 0xE9, 0] demo_mach))"
    by (simp add: store_name_eq demo_mach_def NAMES_CAP_def)
  note w = store_name_spec [OF demo_names_ok this, THEN conjunct1]
  have "stored_name (MOD_NAMES_POS demo_mach) [0x61, 0xE9, 0] = [0x61, 0x3F]"
    by (simp add: stored_name_def ascii_name_def name_byte_def demo_mach_def NAMES_CAP_def)
  with w show ?thesis by simp
qed


text \<open>A volume whose every directory has the one file \<open>/a\<close>, whose bytes are \<open>1, 2, 3\<close>.\<close>

definition demo_fw_dir :: "grants firmware" where
  "demo_fw_dir = (demo_fw_file [1, 2, 3])\<lparr>
     into_type := (\<lambda>h f. (Some (Dir h), f)),
     read_entry := (\<lambda>_ _ f. if (0xFFFFF000, 0) \<in> set f then (EntryOk None, f)
       else (EntryOk (Some \<lparr>is_directory = False, file_name = [0x61], file_size = 3\<rparr>),
             (0xFFFFF000, 0) # f))\<rparr>"

definition demo_names :: "grants mach" where
  "demo_names = demo_mach\<lparr>fw := [(0x7F000000, 1)]\<rparr>"

lemma demo_modules_contract: "modules_contract demo_fw_dir granted"
proof -
  have "page_range x 0 = {}" for x by (simp add: page_range_def in_range_def)
  then have "files_contract demo_fw_dir granted"
    by (simp add: files_contract_def demo_fw_dir_def demo_fw_file_def demo_fw_def granted_def)
  moreover have "read_contract demo_fw_dir"
    by (simp add: read_contract_def demo_fw_dir_def demo_fw_file_def)
  ultimately show ?thesis
    using demo_file_contracts [of "[1, 2, 3]"]
    by (simp add: modules_contract_def alloc_contract_def max_address_contract_def demo_fw_dir_def)
qed

lemma demo_names_safe: "names_safe granted demo_names"
  by (auto simp: names_safe_def demo_names_def demo_mach_def names_ok_def names_range_def granted_def
      page_range_def NAMES_CAP_def)

lemmas load_modules_eval = load_modules_def load_modules_loop.simps load_module_def
  open_file_in_dir_def store_name_eq demo_fw_dir_def demo_fw_file_def demo_fw_def demo_names_def
  demo_mach_def grant_at_def meets_def in_range_def Let_def

lemma demo_load_modules:
  "\<exists>st'. load_modules demo_fw_dir [0x61] demo_names =
    Some (Inr [\<lparr>name_ptr = 0x7F000000, phys_start = 0x7EFFF000, mod_size = 3\<rparr>], st')"
  by (simp add: load_modules_eval NAMES_CAP_def)


text \<open>When a run returns, and when it does not.\<close>

definition short_directory :: "'f firmware \<Rightarrow> ('f \<Rightarrow> nat) \<Rightarrow> bool" where
  "short_directory F left \<longleftrightarrow>
     (\<forall>d f needed. fst (read_entry F d 512 f) \<noteq> EntryErr BUFFER_TOO_SMALL needed) \<and>
     (\<forall>d f e. fst (read_entry F d 512 f) = EntryOk (Some e) \<longrightarrow> left (snd (read_entry F d 512 f)) < left f) \<and>
     (\<forall>h p f. left (snd (dir_open F h p f)) \<le> left f) \<and>
     (\<forall>h f. left (snd (into_regular_file F h f)) \<le> left f) \<and>
     (\<forall>h n f. left (snd (file_read F h n f)) \<le> left f) \<and>
     (\<forall>t ty n f. left (snd (allocate_pages F t ty n f)) \<le> left f)"

lemma snd_le: "r = (a, f1) \<Longrightarrow> left (snd r) \<le> (left f :: nat) \<Longrightarrow> left f1 \<le> left f"
  by simp

lemma load_module_left:
  assumes "short_directory F left"
  shows "left (fw (snd (load_module F dir entry st))) \<le> left (fw st)"
proof -
  have o: "dir_open F h p f = (a, f1) \<Longrightarrow> left f1 \<le> left f"
    and i: "into_regular_file F h f = (a, f1) \<Longrightarrow> left f1 \<le> left f"
    and r: "file_read F h n f = (bs, f1) \<Longrightarrow> left f1 \<le> left f"
    and l: "allocate_pages F t ty k f = (pa, f1) \<Longrightarrow> left f1 \<le> left f"
    for h p f a f1 n bs t ty k pa
    using assms unfolding short_directory_def by (metis snd_conv)+
  have s: "store_name name st = (q, st') \<Longrightarrow> fw st' = fw st" for name q and st st' :: "'a mach"
    by (auto simp: store_name_eq split: if_splits)
  show ?thesis
    by (auto simp: load_module_def open_file_in_dir_def Let_def split: option.splits prod.splits
        dest!: o i r l s)
qed


lemma load_modules_loop_returns:
  assumes short: "short_directory F left"
  shows "load_modules_loop F dir st ms \<noteq> None"
proof (induction "left (fw st)" arbitrary: st ms rule: less_induct)
  case less
  obtain e f where e: "read_entry F dir 512 (fw st) = (e, f)" by force
  have nb: "e \<noteq> EntryErr BUFFER_TOO_SMALL needed" for needed
    using short e unfolding short_directory_def by (metis fst_conv)
  show ?case
  proof (cases "\<exists>entry. e = EntryOk (Some entry)")
    case True
    then obtain entry where entry: "e = EntryOk (Some entry)" by blast
    then have f: "left f < left (fw st)"
      using short e unfolding short_directory_def by (metis fst_conv snd_conv)
    obtain r st' where r: "load_module F dir entry (st\<lparr>fw := f\<rparr>) = (r, st')" by force
    then have "left (fw st') \<le> left f"
      using load_module_left [OF short, of dir entry "st\<lparr>fw := f\<rparr>"] by simp
    with f have "load_modules_loop F dir st' ms' \<noteq> None" for ms' by (intro less) simp
    with e entry r show ?thesis
      by (subst load_modules_loop.simps) (auto split: sum.split option.split)
  next
    case False
    with e nb show ?thesis
      by (subst load_modules_loop.simps) (auto split: entry_result.split option.split)
  qed
qed

text \<open>
  C32: \<open>load_modules\<close> returns on every volume whose directory has finitely many entries, each of
  them fitting the 512-byte buffer: an entry read brings the end of the directory nearer.
\<close>

theorem load_modules_returns:
  assumes "short_directory F left"
  shows "\<exists>r. load_modules F dir_path st = Some r"
  using load_modules_loop_returns [OF assms]
  by (auto simp: load_modules_def split: prod.split option.split file_type.split)

theorem load_modules_returns_witness:
  "\<exists>r. load_modules demo_fw_dir [0x61] demo_names = Some r"
proof (rule load_modules_returns)
  show "short_directory demo_fw_dir (\<lambda>f. if (0xFFFFF000, 0) \<in> set f then 0 else 1)"
  proof -
    have "x \<in> set f \<Longrightarrow> x \<in> set (snd (grant t ty n f))" for x t ty n f
      by (cases t) (auto simp: grant_at_def Let_def)
    then show ?thesis
      by (auto simp: short_directory_def demo_fw_dir_def demo_fw_file_def demo_fw_def)
  qed
qed

lemma load_modules_loop_stuck:
  assumes "load_modules_loop F dir st ms = Some r"
  shows "read_entry F dir 512 (fw st) \<noteq> (EntryErr BUFFER_TOO_SMALL needed, fw st)"
  using assms
proof (induction rule: load_modules_loop.raw_induct [rotated, consumes 1, case_names step])
  case (step loop F dir st ms r)
  show ?case
  proof
    assume e: "read_entry F dir 512 (fw st) = (EntryErr BUFFER_TOO_SMALL needed, fw st)"
    with step(2) have "loop F dir st ms = Some r" by simp
    from step(1) [OF this] e show False by simp
  qed
qed



end
