(* ===== verification/Gop.thy ===== *)
theory Gop
  imports DemoFirmware
begin

text \<open>
  \<open>gop.rs\<close>: what the display's current mode says about its framebuffer, in the form the Multiboot2
  framebuffer tag has it.
\<close>

record fb_info =
  fb_addr :: u64
  fb_pitch :: u32
  fb_width :: u32
  fb_height :: u32
  fb_bpp :: u8
  fb_kind :: u8
  red_pos :: u8
  red_size :: u8
  green_pos :: u8
  green_size :: u8
  blue_pos :: u8
  blue_size :: u8

text \<open>The \<open>match\<close> on the pixel format: depth, type, and position and size of each colour.\<close>

fun colour_layout :: "pixel_format \<Rightarrow> u8 \<times> u8 \<times> u8 \<times> u8 \<times> u8 \<times> u8 \<times> u8 \<times> u8" where
  "colour_layout Rgb = (32, 1, 0, 8, 8, 8, 16, 8)"
| "colour_layout Bgr = (32, 1, 16, 8, 8, 8, 0, 8)"
| "colour_layout _ = (32, 1, 0, 8, 8, 8, 16, 8)"

definition query_gop :: "'f firmware \<Rightarrow> 'f \<Rightarrow> fb_info option \<times> 'f" where
  "query_gop F f =
     (case get_gop_handle F f of (None, f) \<Rightarrow> (None, f) | (Some h, f) \<Rightarrow>
     (case open_gop F h f of (None, f) \<Rightarrow> (None, f) | (Some mode, f) \<Rightarrow>
        if gop_format mode = BltOnly then (None, f)
        else (case colour_layout (gop_format mode) of (bpp, kind, rp, rs, gp, gs, bp, bs) \<Rightarrow>
          (Some \<lparr>fb_addr = gop_base mode,
             fb_pitch = ucast (gop_stride mode) * ucast (bpp div 8),
             fb_width = ucast (gop_width mode), fb_height = ucast (gop_height mode),
             fb_bpp = bpp, fb_kind = kind, red_pos = rp, red_size = rs, green_pos = gp,
             green_size = gs, blue_pos = bp, blue_size = bs\<rparr>, f))))"

text \<open>
  A framebuffer description that a kernel can use: direct colour of 32 bits, whose three 8-bit
  fields lie in the pixel and do not meet.
\<close>

definition fb_usable :: "fb_info \<Rightarrow> bool" where
  "fb_usable fb \<longleftrightarrow> fb_kind fb = 1 \<and> fb_bpp fb = 32 \<and>
     (\<forall>(p, n) \<in> {(red_pos fb, red_size fb), (green_pos fb, green_size fb), (blue_pos fb, blue_size fb)}.
        n = 8 \<and> unat p + unat n \<le> unat (fb_bpp fb)) \<and>
     distinct [red_pos fb, green_pos fb, blue_pos fb] \<and>
     (\<forall>p \<in> {red_pos fb, green_pos fb, blue_pos fb}. 8 dvd unat p)"

lemma query_gop_result:
  assumes "query_gop F f = (Some fb, f')"
  obtains h f1 mode where "get_gop_handle F f = (Some h, f1)" and "open_gop F h f1 = (Some mode, f')"
    and "gop_format mode \<noteq> BltOnly" and "fb_usable fb" and "fb_addr fb = gop_base mode"
    and "fb_pitch fb = ucast (gop_stride mode) * 4"
    and "fb_width fb = ucast (gop_width mode)" and "fb_height fb = ucast (gop_height mode)"
proof -
  obtain ho f1 where h: "get_gop_handle F f = (ho, f1)" by force
  with assms obtain h where ho: "ho = Some h" by (auto simp: query_gop_def split: option.splits)
  obtain mo f2 where m: "open_gop F h f1 = (mo, f2)" by force
  with assms h ho obtain mode where mo: "mo = Some mode" by (auto simp: query_gop_def split: option.splits)
  have "gop_format mode \<noteq> BltOnly" using assms h ho m mo by (auto simp: query_gop_def)
  then show ?thesis
    using that [of h f1 mode] assms h ho m mo
    by (cases "gop_format mode") (auto simp: query_gop_def fb_usable_def)
qed

text \<open>
  \<open>query_gop\<close> on a display whose mode has a framebuffer. The description is of that mode: its
  address and size, a pitch of four bytes for every pixel of a scan line, and 32-bit direct colour
  with disjoint byte-sized fields, red and blue exchanged exactly when the format is \<open>Bgr\<close>.
\<close>

theorem query_gop_spec:
  assumes "get_gop_handle F f = (Some h, f1)" and "open_gop F h f1 = (Some mode, f2)"
    and "gop_format mode \<noteq> BltOnly" and "unat (gop_stride mode) < 2 ^ 30"
  shows "\<exists>fb. query_gop F f = (Some fb, f2) \<and> fb_usable fb \<and> fb_addr fb = gop_base mode \<and>
    unat (fb_pitch fb) = 4 * unat (gop_stride mode) \<and>
    fb_width fb = ucast (gop_width mode) \<and> fb_height fb = ucast (gop_height mode) \<and>
    (blue_pos fb < red_pos fb \<longleftrightarrow> gop_format mode = Bgr)"
proof -
  have s: "unat (ucast (gop_stride mode) :: u32) = unat (gop_stride mode)"
    using assms(4) by (intro unat_narrow32) simp
  have "unat (ucast (gop_stride mode) * 4 :: u32) = 4 * unat (gop_stride mode)"
    using unat_mult_no_overflow [of "ucast (gop_stride mode)" "4 :: u32"] s assms(4) by simp
  with assms(1-3) show ?thesis
    by (cases "gop_format mode") (simp_all add: query_gop_def fb_usable_def)
qed

text \<open>A display without a framebuffer, or none at all, gives no description.\<close>

lemma query_gop_none:
  assumes "get_gop_handle F f = (None, f1) \<or> get_gop_handle F f = (Some h, f1) \<and>
    (open_gop F h f1 = (None, f2) \<or> open_gop F h f1 = (Some mode, f2) \<and> gop_format mode = BltOnly)"
  shows "fst (query_gop F f) = None"
  using assms by (auto simp: query_gop_def)

theorem query_gop_spec_witness:
  "\<exists>fb. query_gop (demo_fw\<lparr>get_gop_handle := (\<lambda>f. (Some 7, f)), open_gop := (\<lambda>_ f. (Some
      \<lparr>gop_width = 1024, gop_height = 768, gop_format = Bgr, gop_stride = 1024, gop_base = 0x80000000\<rparr>, f))\<rparr>)
      [] = (Some fb, []) \<and> unat (fb_pitch fb) = 4096 \<and> blue_pos fb < red_pos fb"
proof -
  let ?mode = "\<lparr>gop_width = 1024, gop_height = 768, gop_format = Bgr, gop_stride = 1024, gop_base = 0x80000000\<rparr>"
  let ?F = "demo_fw\<lparr>get_gop_handle := (\<lambda>f. (Some 7, f)), open_gop := (\<lambda>_ f. (Some ?mode, f))\<rparr>"
  have "\<exists>fb. query_gop ?F [] = (Some fb, []) \<and> fb_usable fb \<and> fb_addr fb = gop_base ?mode \<and>
    unat (fb_pitch fb) = 4 * unat (gop_stride ?mode) \<and>
    fb_width fb = ucast (gop_width ?mode) \<and> fb_height fb = ucast (gop_height ?mode) \<and>
    (blue_pos fb < red_pos fb \<longleftrightarrow> gop_format ?mode = Bgr)"
    by (rule query_gop_spec) simp_all
  then show ?thesis by auto
qed

end
