(* ===== verification/Multiboot.thy ===== *)
theory Multiboot
  imports Modules Gop
begin

text \<open>
  The parts of \<open>multiboot.rs\<close> that both information structures share: the ACPI root pointer, the
  memory reserved for the information, the memory types, and writes into that memory.
\<close>

section \<open>Constants\<close>

definition MB_INFO_MEMORY :: u32 where "MB_INFO_MEMORY = 0x00000001"
definition MB_INFO_MODS :: u32 where "MB_INFO_MODS = 0x00000008"
definition MB_INFO_MEM_MAP :: u32 where "MB_INFO_MEM_MAP = 0x00000040"

definition MB2_TAG_TYPE_END :: u32 where "MB2_TAG_TYPE_END = 0"
definition MB2_TAG_TYPE_MODULE :: u32 where "MB2_TAG_TYPE_MODULE = 3"
definition MB2_TAG_TYPE_MMAP :: u32 where "MB2_TAG_TYPE_MMAP = 6"
definition MB2_TAG_TYPE_FRAMEBUFFER :: u32 where "MB2_TAG_TYPE_FRAMEBUFFER = 8"
definition MB2_TAG_TYPE_ACPI_OLD :: u32 where "MB2_TAG_TYPE_ACPI_OLD = 14"
definition MB2_TAG_TYPE_ACPI_NEW :: u32 where "MB2_TAG_TYPE_ACPI_NEW = 15"

lemmas mb2_tag_types = MB2_TAG_TYPE_END_def MB2_TAG_TYPE_MODULE_def MB2_TAG_TYPE_MMAP_def
  MB2_TAG_TYPE_FRAMEBUFFER_def MB2_TAG_TYPE_ACPI_OLD_def MB2_TAG_TYPE_ACPI_NEW_def

definition RSDP_V1 :: nat where "RSDP_V1 = 20"
definition RSDP_V2 :: nat where "RSDP_V2 = 36"

definition MAX_MODULES :: nat where "MAX_MODULES = 32"
definition INFO_PAGES :: usize where "INFO_PAGES = 4"
definition INFO_SIZE :: nat where "INFO_SIZE = 4 * 4096"

section \<open>The ACPI root pointer\<close>

record rsdp =
  rsdp_bytes :: bytes
  rsdp_len :: nat

text \<open>\<open>b"RSD PTR "\<close>\<close>

definition RSDP_SIGNATURE :: bytes where
  "RSDP_SIGNATURE = [0x52, 0x53, 0x44, 0x20, 0x50, 0x54, 0x52, 0x20]"

text \<open>\<open>entries.iter().find(|e| e.guid == guid).map(|e| e.address)\<close>\<close>

definition find_table :: "(guid \<times> u64) list \<Rightarrow> guid \<Rightarrow> u64 option" where
  "find_table entries g = map_option snd (find (\<lambda>e. fst e = g) entries)"

definition rsdp_length :: "memory \<Rightarrow> u64 \<Rightarrow> nat" where
  "rsdp_length m at =
     (if 2 \<le> m (at + 15)
      then (let said = (of_le (mem_read m (at + 20) 4) :: u32)
            in if unat said < RSDP_V2 then RSDP_V1 else RSDP_V2)
      else RSDP_V1)"

definition find_rsdp :: "'f firmware \<Rightarrow> 'f mach \<Rightarrow> rsdp option" where
  "find_rsdp F st =
     (let entries = config_table F (fw st)
      in case (case find_table entries ACPI2_GUID of Some a \<Rightarrow> Some a | None \<Rightarrow> find_table entries ACPI_GUID) of
           None \<Rightarrow> None
         | Some at \<Rightarrow>
             if at = 0 then None
             else if mem_read (mem st) at 8 \<noteq> RSDP_SIGNATURE then None
             else (let len = rsdp_length (mem st) at
                   in Some \<lparr>rsdp_bytes = splice (replicate RSDP_V2 0) 0 (mem_read (mem st) at len),
                            rsdp_len = len\<rparr>))"

section \<open>The reserved memory\<close>

definition reserve :: "'f firmware \<Rightarrow> 'f mach \<Rightarrow> bool \<times> 'f mach" where
  "reserve F st =
     (case allocate_pages F (MaxAddress 0xFFFFFFFF) LOADER_DATA INFO_PAGES (fw st) of
        (Some at, f) \<Rightarrow> (True, st\<lparr>fw := f, INFO_AT := at\<rparr>)
      | (None, f) \<Rightarrow> (False, st\<lparr>fw := f\<rparr>))"

text \<open>\<open>efi_memtype_to_mb\<close>, with the UEFI memory types of the constants it matches.\<close>

definition efi_memtype_to_mb :: "u32 \<Rightarrow> u32" where
  "efi_memtype_to_mb ty =
     (if ty \<in> {7, 1, 2, 3, 4} then 1
      else if ty = 9 then 3
      else if ty = 10 then 4
      else 2)"

definition write_u32 :: "u64 \<Rightarrow> nat \<Rightarrow> u32 \<Rightarrow> memory \<Rightarrow> memory" where
  "write_u32 base off v m = mem_write m (base + of_nat off) (to_le 4 v)"

definition write_u64 :: "u64 \<Rightarrow> nat \<Rightarrow> u64 \<Rightarrow> memory \<Rightarrow> memory" where
  "write_u64 base off v m = mem_write m (base + of_nat off) (to_le 8 v)"

text \<open>The information memory is a byte store with a frame: the rest of memory.\<close>

interpretation info: framed_store "win_get a" "win_put a" "\<lambda>_. INFO_SIZE" "same_outside a INFO_SIZE"
  for a :: u64
proof unfold_locales
  fix m :: memory and k i and bs :: bytes
  assume "k + length bs \<le> INFO_SIZE" "i < INFO_SIZE"
  then show "win_get a (win_put a m k bs) i =
      (if k \<le> i \<and> i < k + length bs then bs ! (i - k) else win_get a m i)"
    by (intro win_get_put) (simp_all add: INFO_SIZE_def)
qed (auto intro: same_outside_trans same_outside_put simp: INFO_SIZE_def)

lemma write_u32_put: "write_u32 a k v m = win_put a m k (to_le 4 v)"
  by (simp add: write_u32_def win_put_def)

lemma write_u64_put: "write_u64 a k v m = win_put a m k (to_le 8 v)"
  by (simp add: write_u64_def win_put_def)

lemma mem_write_put: "mem_write m (a + of_nat k) bs = win_put a m k bs"
  by (simp add: win_put_def)

lemma info_cleared: "info.written a m [] (mem_fill m a INFO_SIZE 0)"
proof (rule info.written_cleared)
  have small: "INFO_SIZE \<le> 2 ^ 64" by (simp add: INFO_SIZE_def)
  then show "same_outside a INFO_SIZE m (mem_fill m a INFO_SIZE 0)"
    by (simp add: same_outside_def)
  show "info.view a (mem_fill m a INFO_SIZE 0) = replicate INFO_SIZE 0"
  proof (rule nth_equalityI)
    fix i assume "i < length (info.view a (mem_fill m a INFO_SIZE 0))"
    with small show "info.view a (mem_fill m a INFO_SIZE 0) ! i = replicate INFO_SIZE 0 ! i"
      by (simp add: win_get_def mem_fill_def unat_offset)
  qed simp
qed

text \<open>What lies outside the window reads the same through it.\<close>

definition away :: "u64 \<Rightarrow> u64 \<Rightarrow> nat \<Rightarrow> bool" where
  "away a p n \<longleftrightarrow> (\<forall>i < n. \<not> in_range a INFO_SIZE (p + of_nat i))"

lemma mem_read_away: "same_outside a INFO_SIZE m m' \<Longrightarrow> away a p n \<Longrightarrow> mem_read m' p n = mem_read m p n"
  by (rule mem_read_cong) (simp add: same_outside_def away_def)

lemma c_string_away:
  "same_outside a INFO_SIZE m m' \<Longrightarrow> away a p (length s + 1) \<Longrightarrow> c_string m p s \<Longrightarrow> c_string m' p s"
  by (simp add: c_string_def mem_read_away)

section \<open>What they do\<close>

lemma reserve_result:
  assumes "alloc_contract F owned" and "max_address_contract F" and "reserve F st = (True, st')"
  shows "page_range (INFO_AT st') INFO_PAGES \<subseteq> owned (fw st')"
    and "page_range (INFO_AT st') INFO_PAGES \<inter> owned (fw st) = {}"
    and "unat (INFO_AT st') + INFO_SIZE \<le> 2 ^ 32" and "4096 dvd unat (INFO_AT st')"
    and "mem st' = mem st"
proof -
  obtain p f where a: "allocate_pages F (MaxAddress 0xFFFFFFFF) LOADER_DATA INFO_PAGES (fw st) = (Some p, f)"
      and st': "st' = st\<lparr>fw := f, INFO_AT := p\<rparr>"
    using assms(3) by (auto simp: reserve_def split: prod.splits option.splits)
  show "page_range (INFO_AT st') INFO_PAGES \<subseteq> owned (fw st')"
    "page_range (INFO_AT st') INFO_PAGES \<inter> owned (fw st) = {}"
    using alloc_contract_new [OF assms(1) a] by (simp_all add: st')
  show "unat (INFO_AT st') + INFO_SIZE \<le> 2 ^ 32" "4096 dvd unat (INFO_AT st')"
    using max_address_bound [OF assms(2) a] by (simp_all add: st' INFO_PAGES_def INFO_SIZE_def)
  show "mem st' = mem st" by (simp add: st')
qed

text \<open>
  A root pointer at an address: its signature there, and as many bytes of it as its own revision
  and length say, twenty or thirty-six.
\<close>

definition rsdp_at :: "memory \<Rightarrow> u64 \<Rightarrow> rsdp \<Rightarrow> bool" where
  "rsdp_at m at r \<longleftrightarrow> mem_read m at 8 = RSDP_SIGNATURE \<and> rsdp_len r \<in> {RSDP_V1, RSDP_V2} \<and>
     length (rsdp_bytes r) = RSDP_V2 \<and>
     rsdp_bytes r = mem_read m at (rsdp_len r) @ replicate (RSDP_V2 - rsdp_len r) 0 \<and>
     (rsdp_len r = RSDP_V2 \<longleftrightarrow> 2 \<le> m (at + 15) \<and> RSDP_V2 \<le> unat (of_le (mem_read m (at + 20) 4) :: u32))"

lemma rsdp_length_cases:
  "rsdp_length m at = (if 2 \<le> m (at + 15) \<and> RSDP_V2 \<le> unat (of_le (mem_read m (at + 20) 4) :: u32)
     then RSDP_V2 else RSDP_V1)"
  by (auto simp: rsdp_length_def Let_def)

text \<open>
  C38: \<open>find_rsdp\<close>. It looks up the second revision's table entry and, only if there is none, the
  first's; it returns nothing for a null address or a wrong signature, and otherwise a copy of the
  structure, thirty-six bytes exactly when the structure says it has them, and twenty else.
\<close>

theorem find_rsdp_spec:
  "case (case find_table (config_table F (fw st)) ACPI2_GUID of
           None \<Rightarrow> find_table (config_table F (fw st)) ACPI_GUID | Some a \<Rightarrow> Some a) of
     None \<Rightarrow> find_rsdp F st = None
   | Some at \<Rightarrow> if at \<noteq> 0 \<and> mem_read (mem st) at 8 = RSDP_SIGNATURE
       then (\<exists>r. find_rsdp F st = Some r \<and> rsdp_at (mem st) at r) else find_rsdp F st = None"
  by (auto simp: find_rsdp_def Let_def rsdp_at_def rsdp_length_cases splice_def RSDP_V1_def RSDP_V2_def
      split: option.split)

end
