(* ===== verification/Multiboot2.thy ===== *)
theory Multiboot2
  imports Multiboot
begin

text \<open>
  \<open>build_mb2_info\<close>: the Multiboot2 information structure, written into the reserved memory, and a
  reader of that structure to hold it against.
\<close>

section \<open>The builder\<close>

definition SIZEOF_MB2_MMAP_ENTRY :: nat where "SIZEOF_MB2_MMAP_ENTRY = 24"

fun write_mmap_entries :: "u64 \<Rightarrow> mem_desc list \<Rightarrow> nat \<Rightarrow> memory \<Rightarrow> nat \<times> memory" where
  "write_mmap_entries out [] pos m = (pos, m)"
| "write_mmap_entries out (desc # descs) pos m =
     (if INFO_SIZE < pos + SIZEOF_MB2_MMAP_ENTRY then (pos, m)
      else
        let m = write_u64 out pos (md_phys_start desc) m;
            m = write_u64 out (pos + 8) (md_page_count desc * 4096) m;
            m = write_u32 out (pos + 16) (efi_memtype_to_mb (md_type desc)) m;
            m = write_u32 out (pos + 20) 0 m
        in write_mmap_entries out descs (pos + SIZEOF_MB2_MMAP_ENTRY) m)"

definition write_mmap_tag :: "u64 \<Rightarrow> mem_desc list \<Rightarrow> nat \<Rightarrow> memory \<Rightarrow> nat \<times> memory" where
  "write_mmap_tag out descs pos m =
     (let mmap_tag_start = pos;
          m = write_u32 out pos MB2_TAG_TYPE_MMAP m;
          tag_size_offset = pos + 4;
          m = write_u32 out (pos + 8) (of_nat SIZEOF_MB2_MMAP_ENTRY) m;
          m = write_u32 out (pos + 12) 0 m;
          (pos, m) = write_mmap_entries out descs (pos + 16) m;
          m = write_u32 out tag_size_offset (of_nat (pos - mmap_tag_start)) m
      in (align8 pos, m))"

fun write_module_tags :: "u64 \<Rightarrow> module_info list \<Rightarrow> nat \<Rightarrow> memory \<Rightarrow> (nat \<times> memory) option" where
  "write_module_tags out [] pos m = Some (pos, m)"
| "write_module_tags out (mi # modules) pos m =
     (case c_strlen m (name_ptr mi) 0 of
        None \<Rightarrow> None
      | Some name_len \<Rightarrow>
          let tag_size = 4 + 4 + 4 + 4 + name_len + 1
          in if INFO_SIZE < pos + tag_size then Some (pos, m)
             else
               let m = write_u32 out pos MB2_TAG_TYPE_MODULE m;
                   m = write_u32 out (pos + 4) (of_nat tag_size) m;
                   m = write_u32 out (pos + 8) (ucast (phys_start mi)) m;
                   m = write_u32 out (pos + 12) (ucast (phys_start mi + mod_size mi)) m;
                   m = mem_write m (out + of_nat (pos + 16)) (mem_read m (name_ptr mi) (name_len + 1))
               in write_module_tags out modules (align8 (pos + tag_size)) m)"

definition write_framebuffer_tag :: "u64 \<Rightarrow> fb_info option \<Rightarrow> nat \<Rightarrow> memory \<Rightarrow> nat \<times> memory" where
  "write_framebuffer_tag out fbo pos m =
     (case fbo of
        None \<Rightarrow> (pos, m)
      | Some fb \<Rightarrow>
          let fb_tag_size = 37 in
          if pos + fb_tag_size \<le> INFO_SIZE then
            let m = write_u32 out (pos + 0x00) MB2_TAG_TYPE_FRAMEBUFFER m;
                m = write_u32 out (pos + 0x04) (of_nat fb_tag_size) m;
                m = write_u64 out (pos + 0x08) (fb_addr fb) m;
                m = write_u32 out (pos + 0x10) (fb_pitch fb) m;
                m = write_u32 out (pos + 0x14) (fb_width fb) m;
                m = write_u32 out (pos + 0x18) (fb_height fb) m;
                m = mem_write m (out + of_nat (pos + 0x1C)) [fb_bpp fb];
                m = mem_write m (out + of_nat (pos + 0x1D)) [fb_kind fb];
                m = mem_write m (out + of_nat (pos + 0x1E)) [0];
                m = mem_write m (out + of_nat (pos + 0x1F)) [red_pos fb];
                m = mem_write m (out + of_nat (pos + 0x20)) [red_size fb];
                m = mem_write m (out + of_nat (pos + 0x21)) [green_pos fb];
                m = mem_write m (out + of_nat (pos + 0x22)) [green_size fb];
                m = mem_write m (out + of_nat (pos + 0x23)) [blue_pos fb];
                m = mem_write m (out + of_nat (pos + 0x24)) [blue_size fb]
            in (align8 (pos + fb_tag_size), m)
          else (align8 pos, m))"

definition write_rsdp_tag :: "u64 \<Rightarrow> rsdp option \<Rightarrow> nat \<Rightarrow> memory \<Rightarrow> nat \<times> memory" where
  "write_rsdp_tag out ro pos m =
     (case ro of
        None \<Rightarrow> (pos, m)
      | Some r \<Rightarrow>
          let tag_size = 8 + rsdp_len r in
          if pos + tag_size + 8 \<le> INFO_SIZE then
            let kind = (if rsdp_len r = RSDP_V2 then MB2_TAG_TYPE_ACPI_NEW else MB2_TAG_TYPE_ACPI_OLD);
                m = write_u32 out pos kind m;
                m = write_u32 out (pos + 4) (of_nat tag_size) m;
                m = mem_write m (out + of_nat (pos + 8)) (take (rsdp_len r) (rsdp_bytes r))
            in (align8 (pos + tag_size), m)
          else (pos, m))"

definition write_end_tag :: "u64 \<Rightarrow> nat \<Rightarrow> memory \<Rightarrow> nat \<times> memory" where
  "write_end_tag out pos m =
     (if pos + 8 \<le> INFO_SIZE
      then (pos + 8, write_u32 out (pos + 4) 8 (write_u32 out pos MB2_TAG_TYPE_END m))
      else (pos, m))"

definition build_mb2_info :: "mem_desc list \<Rightarrow> fb_info option \<Rightarrow> module_info list \<Rightarrow> rsdp option \<Rightarrow>
    'f mach \<Rightarrow> (u32 \<times> 'f mach) option" where
  "build_mb2_info memory_map fb modules r st =
     (let out = INFO_AT st;
          m = mem_fill (mem st) out INFO_SIZE 0;
          (pos, m) = write_mmap_tag out memory_map 8 m
      in case write_module_tags out modules pos m of
           None \<Rightarrow> None
         | Some (pos, m) \<Rightarrow>
             let (pos, m) = write_framebuffer_tag out fb pos m;
                 (pos, m) = write_rsdp_tag out r pos m;
                 (pos, m) = write_end_tag out pos m;
                 m = write_u32 out 0 (of_nat pos) m;
                 m = write_u32 out 4 0 m
             in Some (ucast out, st\<lparr>mem := m\<rparr>))"

section \<open>The structure it should be\<close>

text \<open>
  A tag is a type and a payload; it is laid out as its type, its size, the payload, and padding to
  the next multiple of eight. The structure is its total size, a reserved word, and its tags.
\<close>

type_synonym mb2_tag = "u32 \<times> bytes"

definition tag_size :: "mb2_tag \<Rightarrow> nat" where
  "tag_size t = 8 + length (snd t)"

definition tag_bytes :: "mb2_tag \<Rightarrow> bytes" where
  "tag_bytes t = to_le 4 (fst t) @ to_le 4 (of_nat (tag_size t) :: u32) @ snd t"

definition padded :: "bytes \<Rightarrow> bytes" where
  "padded bs = bs @ replicate (align8 (length bs) - length bs) 0"

definition tags_bytes :: "mb2_tag list \<Rightarrow> bytes" where
  "tags_bytes ts = concat (map (padded \<circ> tag_bytes) ts)"

definition end_tag :: mb2_tag where
  "end_tag = (0, [])"

definition mb2_image :: "mb2_tag list \<Rightarrow> bytes" where
  "mb2_image ts = to_le 4 (of_nat (8 + length (tags_bytes ts)) :: u32) @ to_le 4 (0 :: u32) @ tags_bytes ts"

text \<open>The payloads, and what a module's tag needs of it.\<close>

definition mmap_entry :: "mem_desc \<Rightarrow> bytes" where
  "mmap_entry d = to_le 8 (md_phys_start d) @ to_le 8 (md_page_count d * 4096) @
     to_le 4 (efi_memtype_to_mb (md_type d)) @ to_le 4 (0 :: u32)"

definition MAX_MMAP :: nat where "MAX_MMAP = 681"

definition mmap_tag :: "mem_desc list \<Rightarrow> mb2_tag" where
  "mmap_tag ds = (6, to_le 4 (24 :: u32) @ to_le 4 (0 :: u32) @ concat (map mmap_entry (take MAX_MMAP ds)))"

definition module_tag :: "module_info \<times> bytes \<Rightarrow> mb2_tag" where
  "module_tag p = (case p of (mi, name) \<Rightarrow>
     (3, to_le 4 (ucast (phys_start mi) :: u32) @ to_le 4 (ucast (phys_start mi + mod_size mi) :: u32) @ name @ [0]))"

definition framebuffer_tag :: "fb_info \<Rightarrow> mb2_tag" where
  "framebuffer_tag fb = (8, to_le 8 (fb_addr fb) @ to_le 4 (fb_pitch fb) @ to_le 4 (fb_width fb) @
     to_le 4 (fb_height fb) @ [fb_bpp fb, fb_kind fb, 0, red_pos fb, red_size fb, green_pos fb,
     green_size fb, blue_pos fb, blue_size fb])"

definition rsdp_tag :: "rsdp \<Rightarrow> mb2_tag" where
  "rsdp_tag r = (if rsdp_len r = RSDP_V2 then 15 else 14, take (rsdp_len r) (rsdp_bytes r))"

text \<open>Which of the tags fit: a tag that does not ends the modules, and only leaves itself out otherwise.\<close>

definition tags_end :: "mb2_tag list \<Rightarrow> nat" where
  "tags_end ts = 8 + length (tags_bytes ts)"

fun add_modules :: "(module_info \<times> bytes) list \<Rightarrow> mb2_tag list \<Rightarrow> mb2_tag list" where
  "add_modules [] ts = ts"
| "add_modules (p # ps) ts =
     (if INFO_SIZE < tags_end ts + tag_size (module_tag p) then ts else add_modules ps (ts @ [module_tag p]))"

definition add_tag :: "nat \<Rightarrow> mb2_tag option \<Rightarrow> mb2_tag list \<Rightarrow> mb2_tag list" where
  "add_tag slack t ts = (case t of None \<Rightarrow> ts
     | Some t \<Rightarrow> if tags_end ts + tag_size t + slack \<le> INFO_SIZE then ts @ [t] else ts)"

definition mb2_tags :: "mem_desc list \<Rightarrow> fb_info option \<Rightarrow> (module_info \<times> bytes) list \<Rightarrow> rsdp option \<Rightarrow>
    mb2_tag list" where
  "mb2_tags ds fb ms r =
     add_tag 0 (Some end_tag) (add_tag 8 (map_option rsdp_tag r) (add_tag 0 (map_option framebuffer_tag fb)
       (add_modules ms [mmap_tag ds])))"

text \<open>
  A kernel's reader of the structure: the tags from the eighth byte on, up to the end tag, within
  the total size the structure gives. It fails on a tag that runs past that, or without an end tag.
\<close>

fun read_tags :: "nat \<Rightarrow> bytes \<Rightarrow> mb2_tag list option" where
  "read_tags 0 bs = None"
| "read_tags (Suc n) bs =
     (if length bs < 8 then None
      else
        let ty = of_le (take 4 bs); len = unat (of_le (take 4 (drop 4 bs)) :: u32)
        in if ty = 0 then Some []
           else if len < 8 \<or> length bs < len then None
           else map_option (Cons (ty, take (len - 8) (drop 8 bs))) (read_tags n (drop (align8 len) bs)))"

definition read_mb2 :: "bytes \<Rightarrow> mb2_tag list option" where
  "read_mb2 bs = (let total = unat (of_le (take 4 bs) :: u32) in read_tags total (drop 8 (take total bs)))"

section \<open>Every tag is written as laid out\<close>

text \<open>Consecutive writes are one write.\<close>

lemmas put_simps = write_u32_put write_u64_put mem_write_put win_put_put

lemma length_mmap_entry [simp]: "length (mmap_entry d) = 24"
  by (simp add: mmap_entry_def)

lemma length_mmap_entries [simp]: "length (concat (map mmap_entry ds)) = 24 * length ds"
  by (induction ds) auto

lemma length_tag_bytes [simp]: "length (tag_bytes t) = tag_size t"
  by (simp add: tag_bytes_def tag_size_def)

lemma length_padded [simp]: "length (padded bs) = align8 (length bs)"
  using align8_ge [of "length bs"] by (simp add: padded_def)

lemma tags_bytes_append [simp]: "tags_bytes (ts @ us) = tags_bytes ts @ tags_bytes us"
  by (simp add: tags_bytes_def)

lemma tags_bytes_single [simp]: "tags_bytes [t] = padded (tag_bytes t)"
  by (simp add: tags_bytes_def)

lemma tags_bytes_Cons: "tags_bytes (t # ts) = padded (tag_bytes t) @ tags_bytes ts"
  by (simp add: tags_bytes_def)

lemma tags_end_dvd: "8 dvd tags_end ts"
  by (induction ts) (auto simp: tags_end_def tags_bytes_def align8_dvd)

lemma tags_end_snoc: "tags_end (ts @ [t]) = align8 (tags_end ts + tag_size t)"
proof -
  have "align8 (tags_end ts + tag_size t) = tags_end ts + align8 (tag_size t)"
    by (rule align8_add [OF tags_end_dvd])
  then show ?thesis by (simp add: tags_end_def)
qed

lemma mmap_entry_put:
  "write_u32 a (pos + 20) 0 (write_u32 a (pos + 16) (efi_memtype_to_mb (md_type d))
    (write_u64 a (pos + 8) (md_page_count d * 4096) (write_u64 a pos (md_phys_start d) m))) =
   win_put a m pos (mmap_entry d)"
  by (simp add: put_simps mmap_entry_def)

lemma mmap_entries_written:
  assumes "info.written a m0 bs m" and "length bs = pos" and "write_mmap_entries a ds pos m = (pos', m')"
  shows "info.written a m0 (bs @ concat (map mmap_entry (take ((INFO_SIZE - pos) div 24) ds))) m' \<and>
    pos' = pos + 24 * min (length ds) ((INFO_SIZE - pos) div 24)"
  using assms
proof (induction ds arbitrary: bs pos m)
  case Nil
  then show ?case by simp
next
  case (Cons d ds)
  show ?case
  proof (cases "INFO_SIZE < pos + 24")
    case True
    with Cons.prems have "(INFO_SIZE - pos) div 24 = 0" by simp
    with True Cons.prems show ?thesis by (simp add: SIZEOF_MB2_MMAP_ENTRY_def)
  next
    case False
    then have k: "(INFO_SIZE - pos) div 24 = Suc ((INFO_SIZE - (pos + 24)) div 24)"
      using le_div_geq [of 24 "INFO_SIZE - pos"] by simp
    have "info.written a m0 (bs @ mmap_entry d) (win_put a m pos (mmap_entry d))"
      using Cons.prems False by (intro info.written_append) simp_all
    from Cons.IH [OF this, of "pos + 24"] Cons.prems False show ?thesis
      by (simp add: SIZEOF_MB2_MMAP_ENTRY_def mmap_entry_put Let_def k)
  qed
qed

lemma tag_put:
  "mem_write (write_u32 a (pos + 4) (of_nat (tag_size t)) (write_u32 a pos (fst t) m))
     (a + of_nat (pos + 8)) (snd t) = win_put a m pos (tag_bytes t)"
  if "tag_size t \<le> INFO_SIZE"
  using that by (simp add: put_simps tag_bytes_def tag_size_def INFO_SIZE_def del: of_nat_add)

text \<open>A tag and its padding, appended to the structure.\<close>

lemma written_tag:
  assumes "info.written a m0 (hdr @ tags_bytes ts) m" and "length hdr = 8"
    and "pos = tags_end ts" and "pos + tag_size t \<le> INFO_SIZE"
  shows "info.written a m0 (hdr @ tags_bytes (ts @ [t])) (win_put a m pos (tag_bytes t))"
proof -
  let ?bs = "hdr @ tags_bytes ts"
  have l: "length ?bs = pos" using assms(2,3) by (simp add: tags_end_def)
  have "info.written a m0 (?bs @ tag_bytes t) (win_put a m pos (tag_bytes t))"
    using assms(4) l by (intro info.written_append assms(1)) simp_all
  moreover have "pos + align8 (tag_size t) \<le> INFO_SIZE"
    using align8_le [OF assms(4)] align8_add [OF tags_end_dvd, of ts "tag_size t"] assms(3)
    by (simp add: INFO_SIZE_def)
  ultimately have "info.written a m0 ((?bs @ tag_bytes t) @
      replicate (align8 (tag_size t) - tag_size t) 0) (win_put a m pos (tag_bytes t))"
    using l align8_ge [of "tag_size t"] by (intro info.written_skip) auto
  then show ?thesis by (simp add: padded_def)
qed

definition hdr0 :: bytes where "hdr0 = replicate 8 0"

lemma length_hdr0 [simp]: "length hdr0 = 8"
  by (simp add: hdr0_def)

lemma mmap_tag_size: "tag_size (mmap_tag ds) = 16 + 24 * min (length ds) MAX_MMAP"
  by (simp add: tag_size_def mmap_tag_def min.commute)

lemma mmap_tag_written:
  assumes "write_mmap_tag a ds 8 (mem_fill m0 a INFO_SIZE 0) = (pos, m)"
  shows "info.written a m0 (hdr0 @ tags_bytes [mmap_tag ds]) m \<and> pos = tags_end [mmap_tag ds]"
proof -
  let ?z = "mem_fill m0 a INFO_SIZE 0"
  let ?es = "concat (map mmap_entry (take MAX_MMAP ds))"
  let ?h = "to_le 4 MB2_TAG_TYPE_MMAP @ replicate 4 0 @ to_le 4 (24 :: u32) @ to_le 4 (0 :: u32)"
  define m1 where "m1 = write_u32 a 20 0 (write_u32 a 16 24 (write_u32 a 8 MB2_TAG_TYPE_MMAP ?z))"
  have "info.written a m0 ([] @ hdr0) ?z"
    unfolding hdr0_def by (rule info.written_skip [OF info_cleared]) (simp add: INFO_SIZE_def)
  then have "info.written a m0 (hdr0 @ to_le 4 MB2_TAG_TYPE_MMAP) (write_u32 a 8 MB2_TAG_TYPE_MMAP ?z)"
    unfolding write_u32_put by (intro info.written_append) (simp_all add: INFO_SIZE_def)
  then have "info.written a m0 ((hdr0 @ to_le 4 MB2_TAG_TYPE_MMAP) @ replicate 4 0)
      (write_u32 a 8 MB2_TAG_TYPE_MMAP ?z)"
    by (rule info.written_skip) (simp add: INFO_SIZE_def)
  then have "info.written a m0 (((hdr0 @ to_le 4 MB2_TAG_TYPE_MMAP) @ replicate 4 0) @ to_le 4 (24 :: u32) @ to_le 4 (0 :: u32))
      (win_put a (write_u32 a 8 MB2_TAG_TYPE_MMAP ?z) 16 (to_le 4 (24 :: u32) @ to_le 4 (0 :: u32)))"
    by (rule info.written_append) (simp_all add: INFO_SIZE_def)
  then have w1: "info.written a m0 (hdr0 @ ?h) m1"
    by (simp add: m1_def write_u32_put win_put_put)
  obtain p2 m2 where e: "write_mmap_entries a ds 24 m1 = (p2, m2)" by force
  have "(INFO_SIZE - 24) div 24 = MAX_MMAP" by (simp add: INFO_SIZE_def MAX_MMAP_def)
  with mmap_entries_written [OF w1 _ e]
  have w2: "info.written a m0 (hdr0 @ ?h @ ?es) m2" and p2: "p2 = 24 + 24 * min (length ds) MAX_MMAP"
    by (simp_all add: hdr0_def)
  let ?size = "of_nat (tag_size (mmap_tag ds)) :: u32"
  have "info.written a m0 ((hdr0 @ to_le 4 MB2_TAG_TYPE_MMAP) @ to_le 4 ?size @
      (to_le 4 (24 :: u32) @ to_le 4 (0 :: u32) @ ?es)) (win_put a m2 12 (to_le 4 ?size))"
    by (rule info.written_patch [where x = "replicate 4 0"]) (use w2 in simp_all)
  moreover have "align8 p2 = p2" by (rule align8_id) (simp add: p2 dvd_add)
  moreover have al: "align8 (tag_size (mmap_tag ds)) = tag_size (mmap_tag ds)"
    by (rule align8_id) (simp add: mmap_tag_size dvd_add)
  moreover have "p2 - 8 = tag_size (mmap_tag ds)" by (simp add: p2 mmap_tag_size)
  moreover have "(pos, m) = (align8 p2, win_put a m2 12 (to_le 4 (of_nat (p2 - 8) :: u32)))"
    using assms e by (simp add: write_mmap_tag_def Let_def m1_def write_u32_put SIZEOF_MB2_MMAP_ENTRY_def)
  ultimately show ?thesis
    by (simp add: tags_end_def padded_def tag_bytes_def mmap_tag_def MB2_TAG_TYPE_MMAP_def p2
        tag_size_def min.commute)
qed

text \<open>A module whose name is a string in memory, away from the reserved memory.\<close>

definition named :: "u64 \<Rightarrow> memory \<Rightarrow> module_info \<Rightarrow> bytes \<Rightarrow> bool" where
  "named a m mi name \<longleftrightarrow> c_string m (name_ptr mi) name \<and> away a (name_ptr mi) (length name + 1)"

lemma module_tag_size: "tag_size (module_tag (mi, name)) = 17 + length name"
  by (simp add: tag_size_def module_tag_def)

lemma named_same: "same_outside a INFO_SIZE m m' \<Longrightarrow> named a m mi name \<Longrightarrow> named a m' mi name"
  by (simp add: named_def c_string_away)

lemma module_tag_put:
  assumes "named a m mi name" and "pos + (17 + length name) \<le> INFO_SIZE"
    and "m4 = write_u32 a (pos + 12) (ucast (phys_start mi + mod_size mi)) (write_u32 a (pos + 8)
      (ucast (phys_start mi)) (write_u32 a (pos + 4) (of_nat (17 + length name)) (write_u32 a pos MB2_TAG_TYPE_MODULE m)))"
  shows "mem_write m4 (a + of_nat (pos + 16)) (mem_read m4 (name_ptr mi) (length name + 1)) =
    win_put a m pos (tag_bytes (module_tag (mi, name)))"
proof -
  let ?h = "to_le 4 MB2_TAG_TYPE_MODULE @ to_le 4 (of_nat (17 + length name) :: u32) @
    to_le 4 (ucast (phys_start mi) :: u32) @ to_le 4 (ucast (phys_start mi + mod_size mi) :: u32)"
  have m4: "m4 = win_put a m pos ?h"
    unfolding assms(3) by (simp add: put_simps)
  then have "same_outside a INFO_SIZE m m4"
    using assms(2) by (auto intro!: same_outside_put simp: INFO_SIZE_def)
  then have "c_string m4 (name_ptr mi) name"
    using named_same [OF _ assms(1)] by (simp add: named_def)
  then have "mem_read m4 (name_ptr mi) (length name + 1) = name @ [0]"
    by (simp add: c_string_def)
  moreover have "tag_bytes (module_tag (mi, name)) = ?h @ name @ [0]"
    by (simp add: tag_bytes_def module_tag_size) (simp add: module_tag_def MB2_TAG_TYPE_MODULE_def)
  ultimately show ?thesis
    using assms(2) by (simp add: m4 mem_write_put win_put_put INFO_SIZE_def del: of_nat_add)
qed

lemma module_tags_written:
  assumes "info.written a m0 (hdr0 @ tags_bytes ts) m" and "pos = tags_end ts"
    and "list_all2 (named a m0) modules names"
  shows "\<exists>m'. write_module_tags a modules pos m = Some (tags_end (add_modules (zip modules names) ts), m') \<and>
    info.written a m0 (hdr0 @ tags_bytes (add_modules (zip modules names) ts)) m'"
  using assms(3,1,2)
proof (induction arbitrary: ts m pos rule: list_all2_induct)
  case Nil
  then show ?case by simp
next
  case (Cons mi modules name names)
  have n: "named a m mi name"
    by (rule named_same [OF info.written_frame [OF Cons.prems(1)] Cons.hyps(1)])
  then have len: "c_strlen m (name_ptr mi) 0 = Some (length name)"
    by (simp add: named_def c_strlen_string)
  show ?case
  proof (cases "INFO_SIZE < pos + (17 + length name)")
    case True
    with Cons.prems len show ?thesis by (simp add: module_tag_size)
  next
    case False
    let ?t = "module_tag (mi, name)"
    have "info.written a m0 (hdr0 @ tags_bytes (ts @ [?t])) (win_put a m pos (tag_bytes ?t))"
      using False Cons.prems by (intro written_tag) (simp_all add: module_tag_size)
    from Cons.IH [OF this refl] False Cons.prems show ?thesis
      using module_tag_put [OF n _ refl, of pos]
      by (simp add: len Let_def module_tag_size tags_end_snoc)
  qed
qed

lemma framebuffer_tag_size: "tag_size (framebuffer_tag fb) = 37"
  by (simp add: tag_size_def framebuffer_tag_def)

lemma framebuffer_tag_written:
  assumes "info.written a m0 (hdr0 @ tags_bytes ts) m" and "pos = tags_end ts"
    and "write_framebuffer_tag a fbo pos m = (pos', m')" and "ts' = add_tag 0 (map_option framebuffer_tag fbo) ts"
  shows "info.written a m0 (hdr0 @ tags_bytes ts') m' \<and> pos' = tags_end ts'"
proof (cases fbo)
  case None
  with assms show ?thesis by (simp add: write_framebuffer_tag_def add_tag_def)
next
  case (Some fb)
  show ?thesis
  proof (cases "pos + 37 \<le> INFO_SIZE")
    case True
    have "m' = win_put a m pos (tag_bytes (framebuffer_tag fb))"
      using assms(3) Some True
      by (simp add: write_framebuffer_tag_def put_simps tag_bytes_def framebuffer_tag_size del: of_nat_add)
        (simp add: framebuffer_tag_def MB2_TAG_TYPE_FRAMEBUFFER_def)
    moreover have "info.written a m0 (hdr0 @ tags_bytes (ts @ [framebuffer_tag fb]))
        (win_put a m pos (tag_bytes (framebuffer_tag fb)))"
      by (rule written_tag [OF assms(1) length_hdr0 assms(2)]) (simp add: framebuffer_tag_size True)
    ultimately show ?thesis
      using assms Some True
      by (simp add: add_tag_def framebuffer_tag_size tags_end_snoc write_framebuffer_tag_def Let_def)
  next
    case False
    with assms Some show ?thesis
      by (simp add: write_framebuffer_tag_def add_tag_def framebuffer_tag_size align8_id tags_end_dvd)
  qed
qed

lemma rsdp_tag_size: "rsdp_len r \<le> length (rsdp_bytes r) \<Longrightarrow> tag_size (rsdp_tag r) = 8 + rsdp_len r"
  by (simp add: tag_size_def rsdp_tag_def)

lemma rsdp_tag_written:
  assumes "info.written a m0 (hdr0 @ tags_bytes ts) m" and "pos = tags_end ts"
    and "write_rsdp_tag a ro pos m = (pos', m')" and "ts' = add_tag 8 (map_option rsdp_tag ro) ts"
    and "\<And>r. ro = Some r \<Longrightarrow> rsdp_len r \<le> length (rsdp_bytes r)"
  shows "info.written a m0 (hdr0 @ tags_bytes ts') m' \<and> pos' = tags_end ts'"
proof (cases ro)
  case None
  with assms show ?thesis by (simp add: write_rsdp_tag_def add_tag_def)
next
  case (Some r)
  let ?t = "rsdp_tag r"
  have s: "tag_size ?t = 8 + rsdp_len r" using Some assms(5) by (intro rsdp_tag_size)
  show ?thesis
  proof (cases "pos + tag_size ?t + 8 \<le> INFO_SIZE")
    case True
    have k: "(if rsdp_len r = RSDP_V2 then MB2_TAG_TYPE_ACPI_NEW else MB2_TAG_TYPE_ACPI_OLD) = fst ?t"
      "take (rsdp_len r) (rsdp_bytes r) = snd ?t"
      by (simp_all add: rsdp_tag_def MB2_TAG_TYPE_ACPI_NEW_def MB2_TAG_TYPE_ACPI_OLD_def)
    have "m' = mem_write (write_u32 a (pos + 4) (of_nat (tag_size ?t)) (write_u32 a pos (fst ?t) m))
        (a + of_nat (pos + 8)) (snd ?t)"
      using assms(3) Some True by (simp add: write_rsdp_tag_def Let_def s k [symmetric] del: of_nat_add)
    then have "m' = win_put a m pos (tag_bytes ?t)"
      using tag_put [of ?t a pos m] True by simp
    moreover have "info.written a m0 (hdr0 @ tags_bytes (ts @ [?t])) (win_put a m pos (tag_bytes ?t))"
      using True by (intro written_tag [OF assms(1) length_hdr0 assms(2)]) simp
    ultimately show ?thesis
      using assms(2,3,4) Some True s
      by (simp add: add_tag_def tags_end_snoc write_rsdp_tag_def Let_def)
  next
    case False
    with assms Some s show ?thesis by (simp add: write_rsdp_tag_def add_tag_def)
  qed
qed

lemma end_tag_written:
  assumes "info.written a m0 (hdr0 @ tags_bytes ts) m" and "pos = tags_end ts"
    and "write_end_tag a pos m = (pos', m')" and "ts' = add_tag 0 (Some end_tag) ts"
  shows "info.written a m0 (hdr0 @ tags_bytes ts') m' \<and> pos' = tags_end ts'"
proof -
  have t: "tag_bytes end_tag = to_le 4 (0 :: u32) @ to_le 4 (8 :: u32)" "tag_size end_tag = 8"
    by (simp_all add: tag_bytes_def end_tag_def tag_size_def)
  have al: "align8 (pos + 8) = pos + 8"
    using assms(2) by (intro align8_id) (simp add: tags_end_dvd)
  have "info.written a m0 (hdr0 @ tags_bytes (ts @ [end_tag])) (win_put a m pos (tag_bytes end_tag))"
    if "pos + 8 \<le> INFO_SIZE"
    using that by (intro written_tag [OF assms(1) length_hdr0 assms(2)]) (simp add: t(2))
  moreover have "write_u32 a (pos + 4) 8 (write_u32 a pos MB2_TAG_TYPE_END m) = win_put a m pos (tag_bytes end_tag)"
    by (simp add: put_simps t MB2_TAG_TYPE_END_def)
  ultimately show ?thesis
    using assms al by (auto simp: write_end_tag_def add_tag_def t(2) tags_end_snoc)
qed

lemma header_written:
  assumes "info.written a m0 (hdr0 @ tags_bytes ts) m" and "pos = tags_end ts"
  shows "info.written a m0 (mb2_image ts) (write_u32 a 4 0 (write_u32 a 0 (of_nat pos) m))"
proof -
  let ?h = "to_le 4 (of_nat pos :: u32) @ to_le 4 (0 :: u32)"
  have "info.written a m0 ([] @ ?h @ tags_bytes ts) (win_put a m 0 ?h)"
    by (rule info.written_patch [where x = hdr0]) (use assms(1) in simp_all)
  then show ?thesis
    using assms(2) by (simp add: put_simps mb2_image_def tags_end_def)
qed

lemma build_mb2_info_written:
  assumes "list_all2 (named (INFO_AT st) (mem st)) modules names"
    and "\<And>rp. r = Some rp \<Longrightarrow> rsdp_len rp \<le> length (rsdp_bytes rp)"
    and "ts = mb2_tags descs fb (zip modules names) r"
  shows "\<exists>m. build_mb2_info descs fb modules r st = Some (ucast (INFO_AT st), st\<lparr>mem := m\<rparr>) \<and>
    info.written (INFO_AT st) (mem st) (mb2_image ts) m"
proof -
  let ?a = "INFO_AT st" and ?ms = "zip modules names"
  obtain p1 m1 where 1: "write_mmap_tag ?a descs 8 (mem_fill (mem st) ?a INFO_SIZE 0) = (p1, m1)" by force
  note w1 = mmap_tag_written [OF 1, THEN conjunct1] mmap_tag_written [OF 1, THEN conjunct2]
  let ?ts2 = "add_modules ?ms [mmap_tag descs]"
  obtain m2 where 2: "write_module_tags ?a modules p1 m1 = Some (tags_end ?ts2, m2)"
      and w2: "info.written ?a (mem st) (hdr0 @ tags_bytes ?ts2) m2"
    using module_tags_written [OF w1 assms(1)] by blast
  obtain p3 m3 where 3: "write_framebuffer_tag ?a fb (tags_end ?ts2) m2 = (p3, m3)" by force
  let ?ts3 = "add_tag 0 (map_option framebuffer_tag fb) ?ts2"
  note w3 = framebuffer_tag_written [OF w2 refl 3 refl]
  obtain p4 m4 where 4: "write_rsdp_tag ?a r p3 m3 = (p4, m4)" by force
  let ?ts4 = "add_tag 8 (map_option rsdp_tag r) ?ts3"
  have w4: "info.written ?a (mem st) (hdr0 @ tags_bytes ?ts4) m4 \<and> p4 = tags_end ?ts4"
    by (rule rsdp_tag_written [OF _ _ 4 refl assms(2)]) (use w3 in simp_all)
  obtain p5 m5 where 5: "write_end_tag ?a p4 m4 = (p5, m5)" by force
  have w5: "info.written ?a (mem st) (hdr0 @ tags_bytes ts) m5 \<and> p5 = tags_end ts"
    by (rule end_tag_written [OF _ _ 5]) (use w4 assms(3) in \<open>simp_all add: mb2_tags_def\<close>)
  then have "info.written ?a (mem st) (mb2_image ts) (write_u32 ?a 4 0 (write_u32 ?a 0 (of_nat p5) m5))"
    by (intro header_written) simp_all
  with 1 2 3 4 5 show ?thesis
    by (intro exI [of _ "write_u32 ?a 4 0 (write_u32 ?a 0 (of_nat p5) m5)"])
      (simp add: build_mb2_info_def Let_def)
qed

section \<open>Reading it back\<close>

definition readable :: "mb2_tag \<Rightarrow> bool" where
  "readable t \<longleftrightarrow> fst t \<noteq> 0 \<and> tag_size t < 2 ^ 32"

lemma take_tag:
  "take 4 (tag_bytes t @ rest) = to_le 4 (fst t)"
  "take 4 (drop 4 (tag_bytes t @ rest)) = to_le 4 (of_nat (tag_size t) :: u32)"
  "take (tag_size t - 8) (drop 8 (tag_bytes t @ rest)) = snd t"
  by (simp_all add: tag_bytes_def tag_size_def)

lemma drop_padded: "drop (align8 (tag_size t)) (padded (tag_bytes t) @ rest) = rest"
  by simp

lemma read_tags_Cons:
  assumes "readable t"
  shows "read_tags (Suc n) (padded (tag_bytes t) @ rest) = map_option (Cons t) (read_tags n rest)"
proof -
  obtain z where z: "padded (tag_bytes t) @ rest = tag_bytes t @ z @ rest"
    by (simp add: padded_def)
  have "tag_size t \<ge> 8" by (simp add: tag_size_def)
  moreover have "unat (of_nat (tag_size t) :: u32) = tag_size t"
    using assms by (simp add: readable_def unat_of_nat take_bit_nat_eq_self)
  moreover have "drop (align8 (tag_size t)) (tag_bytes t @ z @ rest) = rest"
    using drop_padded [of t rest] unfolding z .
  ultimately show ?thesis
    unfolding z read_tags.simps Let_def take_tag of_le_to_le_widths
    using assms by (cases t) (simp add: readable_def, simp add: tag_bytes_def)
qed

lemma read_tags_end: "read_tags (Suc n) (padded (tag_bytes end_tag)) = Some []"
proof -
  have "padded (tag_bytes end_tag) = tag_bytes end_tag" "length (tag_bytes end_tag) = 8"
    by (simp_all add: padded_def end_tag_def tag_size_def align8_def)
  moreover have "of_le (take 4 (tag_bytes end_tag)) = (0 :: u32)"
    using take_tag(1) [of end_tag "[]"] by (simp add: end_tag_def)
  ultimately show ?thesis by (simp add: Let_def del: length_tag_bytes)
qed

lemma read_tags_written:
  assumes "\<forall>t \<in> set ts. readable t" and "length ts < n"
  shows "read_tags n (tags_bytes (ts @ [end_tag])) = Some ts"
  using assms
proof (induction ts arbitrary: n)
  case Nil
  then obtain k where "n = Suc k" by (cases n) auto
  then show ?case by (simp add: read_tags_end del: read_tags.simps)
next
  case (Cons t ts)
  then obtain k where n: "n = Suc k" "length ts < k" by (cases n) auto
  with Cons have "read_tags k (tags_bytes (ts @ [end_tag])) = Some ts" by simp
  with Cons.prems n(1) show ?case
    by (simp add: tags_bytes_Cons read_tags_Cons del: read_tags.simps)
qed

text \<open>Without an end tag the reader runs off the end.\<close>

lemma read_tags_no_end:
  assumes "\<forall>t \<in> set ts. readable t"
  shows "read_tags n (tags_bytes ts) = None"
  using assms
proof (induction ts arbitrary: n)
  case Nil
  then show ?case by (cases n) (simp_all add: tags_bytes_def)
next
  case (Cons t ts)
  then show ?case by (cases n) (simp_all add: tags_bytes_Cons read_tags_Cons del: read_tags.simps(2))
qed

lemma length_tags_bytes: "8 * length ts \<le> length (tags_bytes ts)"
proof (induction ts)
  case (Cons t ts)
  have "8 \<le> align8 (tag_size t)" using align8_ge [of "tag_size t"] by (simp add: tag_size_def)
  with Cons show ?case by (simp add: tags_bytes_Cons)
qed (simp add: tags_bytes_def)

lemma read_mb2_image:
  assumes "tags_end ts < 2 ^ 32"
  shows "read_mb2 (mb2_image ts @ zs) = read_tags (tags_end ts) (tags_bytes ts)"
proof -
  have "unat (of_nat (tags_end ts) :: u32) = tags_end ts"
    using assms by (simp add: unat_of_nat take_bit_nat_eq_self)
  moreover have "take (tags_end ts) (mb2_image ts @ zs) = mb2_image ts"
    by (simp add: mb2_image_def tags_end_def)
  moreover have "take 4 (mb2_image ts @ zs) = to_le 4 (of_nat (tags_end ts) :: u32)"
    by (simp add: mb2_image_def tags_end_def)
  moreover have "drop 8 (mb2_image ts) = tags_bytes ts" by (simp add: mb2_image_def)
  ultimately show ?thesis unfolding read_mb2_def Let_def by simp
qed

text \<open>Which tags there are, and how many bytes they take.\<close>

definition mb2_content :: "mem_desc list \<Rightarrow> fb_info option \<Rightarrow> (module_info \<times> bytes) list \<Rightarrow> rsdp option \<Rightarrow>
    mb2_tag list" where
  "mb2_content ds fb ms r = add_tag 8 (map_option rsdp_tag r)
     (add_tag 0 (map_option framebuffer_tag fb) (add_modules ms [mmap_tag ds]))"

lemma mb2_tags_eq: "mb2_tags ds fb ms r = add_tag 0 (Some end_tag) (mb2_content ds fb ms r)"
  by (simp add: mb2_tags_def mb2_content_def)

lemma tags_end_fits:
  "tags_end ts + tag_size t \<le> INFO_SIZE \<Longrightarrow> tags_end (ts @ [t]) \<le> INFO_SIZE"
  unfolding tags_end_snoc by (rule align8_le) (simp_all add: INFO_SIZE_def)

lemma add_modules_end: "tags_end ts \<le> INFO_SIZE \<Longrightarrow> tags_end (add_modules ms ts) \<le> INFO_SIZE"
  by (induction ms arbitrary: ts) (auto simp: tags_end_fits)

lemma add_tag_end: "tags_end ts \<le> INFO_SIZE \<Longrightarrow> tags_end (add_tag k t ts) \<le> INFO_SIZE"
  by (auto simp: add_tag_def tags_end_fits split: option.split)

lemma mb2_content_end: "tags_end (mb2_content ds fb ms r) \<le> INFO_SIZE"
proof -
  have "tag_size (mmap_tag ds) \<le> 16 + 24 * MAX_MMAP" by (simp add: mmap_tag_size)
  then have "tags_end ([] @ [mmap_tag ds]) \<le> INFO_SIZE"
    by (intro tags_end_fits) (simp add: tags_end_def tags_bytes_def INFO_SIZE_def MAX_MMAP_def)
  then show ?thesis unfolding mb2_content_def by (simp add: add_tag_end add_modules_end)
qed

lemma tags_end_member:
  assumes "t \<in> set ts" and "tags_end ts \<le> INFO_SIZE"
  shows "tag_size t < 2 ^ 32"
proof -
  have "align8 (tag_size t) \<le> length (tags_bytes ts)"
    using assms(1) by (induction ts) (auto simp: tags_bytes_Cons)
  with assms(2) align8_ge [of "tag_size t"] show ?thesis by (simp add: tags_end_def INFO_SIZE_def)
qed

lemma add_modules_set: "t \<in> set (add_modules ms ts) \<Longrightarrow> t \<in> set ts \<or> t \<in> module_tag ` set ms"
  by (induction ms arbitrary: ts) (fastforce split: if_splits)+

lemma add_tag_set: "t \<in> set (add_tag k x ts) \<Longrightarrow> t \<in> set ts \<or> x = Some t"
  by (auto simp: add_tag_def split: option.splits if_splits)

lemma mb2_content_readable: "\<forall>t \<in> set (mb2_content ds fb ms r). readable t"
proof
  fix t assume t: "t \<in> set (mb2_content ds fb ms r)"
  then have "fst t \<noteq> 0"
    unfolding mb2_content_def
    by (auto dest!: add_tag_set add_modules_set simp: mmap_tag_def module_tag_def framebuffer_tag_def
        rsdp_tag_def split: prod.splits if_splits)
  with tags_end_member [OF t mb2_content_end] show "readable t" by (simp add: readable_def)
qed

lemma read_mb2_content:
  "read_mb2 (mb2_image (mb2_tags ds fb ms r) @ zs) =
    (if tags_end (mb2_content ds fb ms r) < INFO_SIZE then Some (mb2_content ds fb ms r) else None)"
proof -
  let ?c = "mb2_content ds fb ms r"
  have e: "tag_size end_tag = 8" by (simp add: end_tag_def tag_size_def)
  have d: "8 dvd tags_end ?c" by (rule tags_end_dvd)
  have le: "tags_end ?c \<le> INFO_SIZE" by (rule mb2_content_end)
  have lim: "INFO_SIZE < 2 ^ 32" by (simp add: INFO_SIZE_def)
  show ?thesis
  proof (cases "tags_end ?c < INFO_SIZE")
    case True
    then have fit: "tags_end ?c + 8 \<le> INFO_SIZE" using d by (auto simp: INFO_SIZE_def elim!: dvdE)
    then have ts: "mb2_tags ds fb ms r = ?c @ [end_tag]"
      by (simp add: mb2_tags_eq add_tag_def e)
    have te: "tags_end (?c @ [end_tag]) \<le> INFO_SIZE"
      using fit e by (intro tags_end_fits) simp
    have "length ?c < tags_end (?c @ [end_tag])"
      using length_tags_bytes [of "?c @ [end_tag]"] by (simp add: tags_end_def)
    with read_tags_written [OF mb2_content_readable] read_mb2_image [of "?c @ [end_tag]" zs] te lim True ts
    show ?thesis by simp
  next
    case False
    then have "mb2_tags ds fb ms r = ?c" using le by (simp add: mb2_tags_eq add_tag_def e)
    with False read_tags_no_end [OF mb2_content_readable] read_mb2_image [of ?c zs] le lim
    show ?thesis by simp
  qed
qed

text \<open>Everything is there when it all fits.\<close>

definition mb2_all :: "mem_desc list \<Rightarrow> fb_info option \<Rightarrow> (module_info \<times> bytes) list \<Rightarrow> rsdp option \<Rightarrow>
    mb2_tag list" where
  "mb2_all ds fb ms r = mmap_tag ds # map module_tag ms @
     map framebuffer_tag (case fb of None \<Rightarrow> [] | Some x \<Rightarrow> [x]) @
     map rsdp_tag (case r of None \<Rightarrow> [] | Some x \<Rightarrow> [x])"

lemma tags_end_prefix: "tags_end ts + tag_size t \<le> tags_end (ts @ t # us)"
  using align8_ge [of "tag_size t"] by (simp add: tags_end_def tags_bytes_Cons)

lemma add_modules_all:
  "tags_end (ts @ map module_tag ms) \<le> INFO_SIZE \<Longrightarrow> add_modules ms ts = ts @ map module_tag ms"
proof (induction ms arbitrary: ts)
  case (Cons p ms)
  then show ?case using tags_end_prefix [of ts "module_tag p" "map module_tag ms"] by simp
qed simp

lemma tags_end_mono: "tags_end ts \<le> tags_end (ts @ us)"
  by (simp add: tags_end_def)

lemma mb2_content_all:
  assumes "tags_end (mb2_all ds fb ms r) + 8 \<le> INFO_SIZE"
  shows "mb2_content ds fb ms r = mb2_all ds fb ms r"
proof -
  define a where "a = [mmap_tag ds] @ map module_tag ms"
  define b where "b = a @ map framebuffer_tag (case fb of None \<Rightarrow> [] | Some x \<Rightarrow> [x])"
  define c where "c = b @ map rsdp_tag (case r of None \<Rightarrow> [] | Some x \<Rightarrow> [x])"
  have all: "mb2_all ds fb ms r = c" by (simp add: mb2_all_def a_def b_def c_def)
  have le: "tags_end a \<le> tags_end b" "tags_end b \<le> tags_end c"
    unfolding b_def c_def by (rule tags_end_mono)+
  have "add_modules ms [mmap_tag ds] = a"
    unfolding a_def using assms all le by (intro add_modules_all) (simp add: a_def)
  moreover have "add_tag 0 (map_option framebuffer_tag fb) a = b"
    using assms all le tags_end_prefix [of a "framebuffer_tag (the fb)" "[]"]
    by (auto simp: add_tag_def b_def split: option.split)
  moreover have "add_tag 8 (map_option rsdp_tag r) b = c"
    using assms all le tags_end_prefix [of b "rsdp_tag (the r)" "[]"]
    by (auto simp: add_tag_def c_def split: option.split)
  ultimately show ?thesis by (simp add: mb2_content_def all)
qed

section \<open>What the kernel is told\<close>

text \<open>The bytes of the reserved memory, and the hypotheses on what is written into them.\<close>

definition info_bytes :: "'f mach \<Rightarrow> bytes" where
  "info_bytes st = mem_read (mem st) (INFO_AT st) INFO_SIZE"

definition rsdp_ok :: "rsdp option \<Rightarrow> bool" where
  "rsdp_ok r \<longleftrightarrow> (\<forall>rp \<in> set_option r. rsdp_len rp \<le> length (rsdp_bytes rp))"

lemma info_bytes_view: "info.view (INFO_AT st) (mem st) = info_bytes st"
  by (rule nth_equalityI) (simp_all add: info_bytes_def win_get_def)

lemma build_mb2_info_bytes:
  assumes "list_all2 (named (INFO_AT st) (mem st)) modules names" and "rsdp_ok r"
    and "build_mb2_info descs fb modules r st = Some (p, st')"
  shows "info_bytes st' = mb2_image (mb2_tags descs fb (zip modules names) r) @
      replicate (INFO_SIZE - length (mb2_image (mb2_tags descs fb (zip modules names) r))) 0"
    and "same_outside (INFO_AT st) INFO_SIZE (mem st) (mem st')"
    and "p = ucast (INFO_AT st)" and "INFO_AT st' = INFO_AT st" and "fw st' = fw st"
proof -
  obtain m where b: "build_mb2_info descs fb modules r st = Some (ucast (INFO_AT st), st\<lparr>mem := m\<rparr>)"
    and w: "info.written (INFO_AT st) (mem st) (mb2_image (mb2_tags descs fb (zip modules names) r)) m"
    using build_mb2_info_written [OF assms(1) _ refl, of r descs fb] assms(2) by (auto simp: rsdp_ok_def)
  with assms(3) have st': "st' = st\<lparr>mem := m\<rparr>" and p: "p = ucast (INFO_AT st)" by auto
  show "info_bytes st' = mb2_image (mb2_tags descs fb (zip modules names) r) @
      replicate (INFO_SIZE - length (mb2_image (mb2_tags descs fb (zip modules names) r))) 0"
    using info.written_view [OF w] info_bytes_view [of "st\<lparr>mem := m\<rparr>"] by (simp add: st')
  show "same_outside (INFO_AT st) INFO_SIZE (mem st) (mem st')"
    using info.written_frame [OF w] by (simp add: st')
  show "p = ucast (INFO_AT st)" "INFO_AT st' = INFO_AT st" "fw st' = fw st"
    using p st' by simp_all
qed

text \<open>
  C6: \<open>build_mb2_info\<close> for modules whose names are strings outside the reserved memory. It returns;
  the address it returns is the reserved memory's; every byte of that memory is that of the laid
  out structure (total size, reserved word, tags in order, each padded to eight bytes) followed by
  zeros; and no byte outside it has changed.
\<close>

theorem build_mb2_info_image:
  assumes "list_all2 (named (INFO_AT st) (mem st)) modules names" and "rsdp_ok r"
    and "img = mb2_image (mb2_tags descs fb (zip modules names) r)"
  shows "\<exists>st'. build_mb2_info descs fb modules r st = Some (ucast (INFO_AT st), st') \<and>
    length img \<le> INFO_SIZE \<and> info_bytes st' = img @ replicate (INFO_SIZE - length img) 0 \<and>
    same_outside (INFO_AT st) INFO_SIZE (mem st) (mem st') \<and> fw st' = fw st"
proof -
  obtain m where b: "build_mb2_info descs fb modules r st = Some (ucast (INFO_AT st), st\<lparr>mem := m\<rparr>)"
    and w: "info.written (INFO_AT st) (mem st) img m"
    using build_mb2_info_written [OF assms(1) _ refl, of r descs fb] assms(2,3)
    by (auto simp: rsdp_ok_def)
  note k = build_mb2_info_bytes [OF assms(1,2) b, folded assms(3)]
  with b info.written_length [OF w] show ?thesis by blast
qed

text \<open>
  C7: the round trip. A kernel that reads the structure tag by tag, trusting its total size, gets
  back exactly the tags that were written, whenever they leave room for the end tag.
\<close>

theorem build_mb2_info_read:
  assumes "list_all2 (named (INFO_AT st) (mem st)) modules names" and "rsdp_ok r"
    and "build_mb2_info descs fb modules r st = Some (p, st')"
    and "tags_end (mb2_content descs fb (zip modules names) r) < INFO_SIZE"
  shows "read_mb2 (info_bytes st') = Some (mb2_content descs fb (zip modules names) r)"
  using assms(4) unfolding build_mb2_info_bytes(1) [OF assms(1-3)] read_mb2_content by simp

text \<open>
  C21: nothing is left out when it fits: with at most 681 memory descriptors, and all the tags
  and the end tag within the 16 KiB, the kernel reads the whole memory map, a tag for every module
  with its addresses and name, the framebuffer and the ACPI root pointer.
\<close>

theorem build_mb2_info_complete:
  assumes "list_all2 (named (INFO_AT st) (mem st)) modules names" and "rsdp_ok r"
    and "build_mb2_info descs fb modules r st = Some (p, st')"
    and "length descs \<le> MAX_MMAP" and "tags_end (mb2_all descs fb (zip modules names) r) + 8 \<le> INFO_SIZE"
  shows "read_mb2 (info_bytes st') = Some ((6, to_le 4 (24 :: u32) @ to_le 4 (0 :: u32) @ concat (map mmap_entry descs)) #
      map module_tag (zip modules names) @ map framebuffer_tag (case fb of None \<Rightarrow> [] | Some x \<Rightarrow> [x]) @
      map rsdp_tag (case r of None \<Rightarrow> [] | Some x \<Rightarrow> [x]))"
proof -
  have c: "mb2_content descs fb (zip modules names) r = mb2_all descs fb (zip modules names) r"
    by (rule mb2_content_all [OF assms(5)])
  with assms(5) have "tags_end (mb2_content descs fb (zip modules names) r) < INFO_SIZE" by simp
  with c assms(4) show ?thesis
    unfolding build_mb2_info_bytes(1) [OF assms(1-3)] read_mb2_content
    by (simp add: mb2_all_def mmap_tag_def)
qed

text \<open>
  C40: what happens when the tags fill the reserved memory to the last byte: the end tag is left
  out, without a word, and a kernel reading the structure runs off its end.
\<close>

theorem build_mb2_info_no_end_tag:
  assumes "list_all2 (named (INFO_AT st) (mem st)) modules names" and "rsdp_ok r"
    and "build_mb2_info descs fb modules r st = Some (p, st')"
    and "tags_end (mb2_content descs fb (zip modules names) r) = INFO_SIZE"
  shows "read_mb2 (info_bytes st') = None"
  using assms(4) unfolding build_mb2_info_bytes(1) [OF assms(1-3)] read_mb2_content by simp

section \<open>Examples\<close>

text \<open>A machine with one module, named \<open>abc\<close>, and the information reserved at 1 MiB.\<close>

definition demo_module :: module_info where
  "demo_module = \<lparr>name_ptr = 0x7F000000, phys_start = 0x2000000, mod_size = 0x1234\<rparr>"

definition demo_info :: "bytes \<Rightarrow> grants mach" where
  "demo_info name = demo_mach\<lparr>INFO_AT := 0x100000, mem := mem_write (\<lambda>_. 0) 0x7F000000 name\<rparr>"

definition demo_rsdp :: rsdp where
  "demo_rsdp = \<lparr>rsdp_bytes = replicate 36 1, rsdp_len = 20\<rparr>"

lemma demo_named:
  assumes "0 \<notin> set name" and "length name < 64"
  shows "list_all2 (named (INFO_AT (demo_info name)) (mem (demo_info name))) [demo_module] [name]"
proof -
  have r: "mem (demo_info name) (0x7F000000 + of_nat i) = (if i < length name then name ! i else 0)"
    if "i < 64" for i
    using that mem_write_at [of 0 name i "\<lambda>_. 0" "0x7F000000"] assms(2) by (simp add: demo_info_def)
  have "c_string (mem (demo_info name)) 0x7F000000 name"
    using assms r [of "length name"] by (intro c_stringI) (simp_all add: r)
  moreover have "away 0x100000 0x7F000000 (length name + 1)"
    unfolding away_def
  proof (intro allI impI)
    fix i assume "i < length name + 1"
    then have i: "i < 64" using assms(2) by simp
    have "(0x7F000000 + of_nat i - 0x100000 :: u64) = of_nat (0x7EF00000 + i)" by simp
    then have "unat (0x7F000000 + of_nat i - 0x100000 :: u64) = 0x7EF00000 + i"
      using unat_offset [of "0x7EF00000 + i"] i by simp
    then show "\<not> in_range 0x100000 INFO_SIZE (0x7F000000 + of_nat i)"
      by (simp add: in_range_def INFO_SIZE_def)
  qed
  ultimately show ?thesis by (simp add: named_def demo_module_def demo_info_def)
qed

lemma demo_rsdp_ok: "rsdp_ok (Some demo_rsdp)" "rsdp_ok None"
  by (simp_all add: rsdp_ok_def demo_rsdp_def)

lemma demo_tags_end:
  "tags_end (mb2_all (replicate n d) None (zip [mi] [name]) None) = 8 + align8 (16 + 24 * min n MAX_MMAP) +
     align8 (17 + length name)"
  by (simp add: mb2_all_def tags_end_def tags_bytes_Cons mmap_tag_size module_tag_size tags_bytes_def)

definition demo_desc :: mem_desc where
  "demo_desc = \<lparr>md_type = 7, md_phys_start = 0x100000, md_page_count = 256\<rparr>"

theorem build_mb2_info_image_witness:
  "\<exists>st'. build_mb2_info [demo_desc] None [demo_module] (Some demo_rsdp) (demo_info [0x61]) =
    Some (0x100000, st')"
proof -
  have n: "list_all2 (named (INFO_AT (demo_info [0x61])) (mem (demo_info [0x61]))) [demo_module] [[0x61]]"
    by (rule demo_named) simp_all
  from build_mb2_info_image [OF n demo_rsdp_ok(1) refl, of "[demo_desc]" None] show ?thesis
    by (auto simp: demo_info_def)
qed

theorem build_mb2_info_read_witness:
  "\<exists>p st'. build_mb2_info [demo_desc] None [demo_module] None (demo_info [0x61]) = Some (p, st') \<and>
    read_mb2 (info_bytes st') = Some [mmap_tag [demo_desc], module_tag (demo_module, [0x61])]"
proof -
  have n: "list_all2 (named (INFO_AT (demo_info [0x61])) (mem (demo_info [0x61]))) [demo_module] [[0x61]]"
    by (rule demo_named) simp_all
  obtain m where b: "build_mb2_info [demo_desc] None [demo_module] None (demo_info [0x61]) =
      Some (ucast (INFO_AT (demo_info [0x61])), (demo_info [0x61])\<lparr>mem := m\<rparr>)"
    using build_mb2_info_written [OF n _ refl, of None "[demo_desc]" None] by blast
  have c: "mb2_content [demo_desc] None (zip [demo_module] [[0x61]]) None =
      [mmap_tag [demo_desc], module_tag (demo_module, [0x61])]"
    using mb2_content_all [of "[demo_desc]" None "zip [demo_module] [[0x61]]" None]
      demo_tags_end [of 1 demo_desc demo_module "[0x61]"]
    by (simp add: mb2_all_def MAX_MMAP_def INFO_SIZE_def align8_def)
  have "tags_end [mmap_tag [demo_desc], module_tag (demo_module, [0x61])] < INFO_SIZE"
    using demo_tags_end [of 1 demo_desc demo_module "[0x61]"]
    by (simp add: mb2_all_def MAX_MMAP_def INFO_SIZE_def align8_def)
  with build_mb2_info_read [OF n demo_rsdp_ok(2) b] c b show ?thesis by auto
qed

theorem build_mb2_info_complete_witness:
  "\<exists>p st'. build_mb2_info [demo_desc] None [demo_module] None (demo_info [0x61]) = Some (p, st') \<and>
    read_mb2 (info_bytes st') = Some [(6, to_le 4 (24 :: u32) @ to_le 4 (0 :: u32) @ mmap_entry demo_desc),
      module_tag (demo_module, [0x61])]"
proof -
  have n: "list_all2 (named (INFO_AT (demo_info [0x61])) (mem (demo_info [0x61]))) [demo_module] [[0x61]]"
    by (rule demo_named) simp_all
  obtain m where b: "build_mb2_info [demo_desc] None [demo_module] None (demo_info [0x61]) =
      Some (ucast (INFO_AT (demo_info [0x61])), (demo_info [0x61])\<lparr>mem := m\<rparr>)"
    using build_mb2_info_written [OF n _ refl, of None "[demo_desc]" None] by blast
  have "tags_end (mb2_all [demo_desc] None (zip [demo_module] [[0x61]]) None) + 8 \<le> INFO_SIZE"
    using demo_tags_end [of 1 demo_desc demo_module "[0x61]"]
    by (simp add: MAX_MMAP_def INFO_SIZE_def align8_def)
  from build_mb2_info_complete [OF n demo_rsdp_ok(2) b _ this] b show ?thesis
    by (auto simp: MAX_MMAP_def)
qed

theorem build_mb2_info_no_end_tag_witness:
  "\<exists>p st'. build_mb2_info (replicate 680 demo_desc) None [demo_module] None (demo_info (replicate 16 0x61)) =
      Some (p, st') \<and> read_mb2 (info_bytes st') = None"
proof -
  let ?nm = "replicate 16 0x61 :: bytes" and ?ds = "replicate 680 demo_desc"
  have n: "list_all2 (named (INFO_AT (demo_info ?nm)) (mem (demo_info ?nm))) [demo_module] [?nm]"
    by (rule demo_named) simp_all
  obtain m where b: "build_mb2_info ?ds None [demo_module] None (demo_info ?nm) =
      Some (ucast (INFO_AT (demo_info ?nm)), (demo_info ?nm)\<lparr>mem := m\<rparr>)"
    using build_mb2_info_written [OF n _ refl, of None ?ds None] by blast
  have s: "tag_size (mmap_tag ?ds) = 16336"
    unfolding mmap_tag_size by (simp add: MAX_MMAP_def)
  have "tags_end [mmap_tag ?ds] = 16344"
    by (simp add: tags_end_def s align8_def)
  then have c: "mb2_content ?ds None (zip [demo_module] [?nm]) None = [mmap_tag ?ds, module_tag (demo_module, ?nm)]"
    by (simp add: mb2_content_def add_tag_def module_tag_size INFO_SIZE_def)
  have "tags_end [mmap_tag ?ds, module_tag (demo_module, ?nm)] = INFO_SIZE"
    by (simp add: tags_end_def tags_bytes_Cons s module_tag_size align8_def INFO_SIZE_def tags_bytes_def)
  with c have "tags_end (mb2_content ?ds None (zip [demo_module] [?nm]) None) = INFO_SIZE"
    by (simp)
  from build_mb2_info_no_end_tag [OF n demo_rsdp_ok(2) b this] b show ?thesis by blast
qed

end
