(* ===== verification/Multiboot1.thy ===== *)
theory Multiboot1
  imports Multiboot2
begin

text \<open>
  \<open>build_mb1_info\<close>: the Multiboot1 information structure, at fixed places in the reserved memory:
  the structure itself, the modules, their names, and the memory map.
\<close>

section \<open>Layout\<close>

record multiboot_module =
  mod_start :: u32
  mod_end :: u32
  mod_string :: u32
  mod_reserved :: u32

record multiboot_info =
  mbi_flags :: u32
  mem_lower :: u32
  mem_upper :: u32
  boot_device :: u32
  cmdline :: u32
  mods_count :: u32
  mods_addr :: u32
  syms :: "u32 list"
  mmap_length :: u32
  mmap_addr :: u32

record multiboot_mmap_entry =
  entry_size :: u32
  base_addr :: u64
  entry_length :: u64
  entry_type :: u32

text \<open>\<open>write_unaligned\<close> of the packed structures.\<close>

definition module_bytes :: "multiboot_module \<Rightarrow> bytes" where
  "module_bytes x = to_le 4 (mod_start x) @ to_le 4 (mod_end x) @ to_le 4 (mod_string x) @
     to_le 4 (mod_reserved x)"

definition mbi_bytes :: "multiboot_info \<Rightarrow> bytes" where
  "mbi_bytes x = to_le 4 (mbi_flags x) @ to_le 4 (mem_lower x) @ to_le 4 (mem_upper x) @
     to_le 4 (boot_device x) @ to_le 4 (cmdline x) @ to_le 4 (mods_count x) @ to_le 4 (mods_addr x) @
     concat (map (to_le 4) (syms x)) @ to_le 4 (mmap_length x) @ to_le 4 (mmap_addr x)"

definition mmap_bytes :: "multiboot_mmap_entry \<Rightarrow> bytes" where
  "mmap_bytes x = to_le 4 (entry_size x) @ to_le 8 (base_addr x) @ to_le 8 (entry_length x) @
     to_le 4 (entry_type x)"

definition SIZEOF_MODULE :: nat where "SIZEOF_MODULE = 16"
definition SIZEOF_MMAP_ENTRY :: nat where "SIZEOF_MMAP_ENTRY = 24"
definition MB1_MODULES_AT :: nat where "MB1_MODULES_AT = 64"
definition MB1_NAMES_AT :: nat where "MB1_NAMES_AT = MB1_MODULES_AT + MAX_MODULES * SIZEOF_MODULE"
definition MB1_NAME_MAX :: nat where "MB1_NAME_MAX = 64"
definition MB1_MMAP_AT :: nat where "MB1_MMAP_AT = MB1_NAMES_AT + MAX_MODULES * MB1_NAME_MAX"
definition MB1_MMAP_MAX :: nat where "MB1_MMAP_MAX = (INFO_SIZE - MB1_MMAP_AT) div SIZEOF_MMAP_ENTRY"

lemmas mb1_layout = MB1_MODULES_AT_def MB1_NAMES_AT_def MB1_NAME_MAX_def MB1_MMAP_AT_def
  MB1_MMAP_MAX_def SIZEOF_MODULE_def SIZEOF_MMAP_ENTRY_def MAX_MODULES_def INFO_SIZE_def

section \<open>The builder\<close>

definition mmap_entry1 :: "mem_desc \<Rightarrow> multiboot_mmap_entry" where
  "mmap_entry1 desc =
     \<lparr>entry_size = of_nat (SIZEOF_MMAP_ENTRY - 4), base_addr = md_phys_start desc,
      entry_length = md_page_count desc * 4096, entry_type = efi_memtype_to_mb (md_type desc)\<rparr>"

fun count_memory :: "mem_desc \<Rightarrow> u64 \<Rightarrow> u64 \<Rightarrow> u64 \<times> u64" where
  "count_memory desc lower upper =
     (let base = md_phys_start desc; len = md_page_count desc * 4096
      in if efi_memtype_to_mb (md_type desc) = 1 then
           if base < 0x100000 then (lower + len div 1024, upper)
           else if base = 0x100000 \<or> base > 0x100000 \<and> upper > 0 then (lower, upper + len div 1024)
           else (lower, upper)
         else (lower, upper))"

fun write_mmap1 :: "u64 \<Rightarrow> mem_desc list \<Rightarrow> nat \<Rightarrow> u64 \<Rightarrow> u64 \<Rightarrow> memory \<Rightarrow> nat \<times> u64 \<times> u64 \<times> memory" where
  "write_mmap1 base_at [] mmap_count lower upper m = (mmap_count, lower, upper, m)"
| "write_mmap1 base_at (desc # descs) mmap_count lower upper m =
     (if MB1_MMAP_MAX \<le> mmap_count then (mmap_count, lower, upper, m)
      else
        let m = mem_write m (base_at + of_nat (MB1_MMAP_AT + mmap_count * SIZEOF_MMAP_ENTRY))
                  (mmap_bytes (mmap_entry1 desc));
            (lower, upper) = count_memory desc lower upper
        in write_mmap1 base_at descs (mmap_count + 1) lower upper m)"

function copy_name :: "u64 \<Rightarrow> u64 \<Rightarrow> nat \<Rightarrow> memory \<Rightarrow> memory" where
  "copy_name src name len m =
     (if len < MB1_NAME_MAX - 1 \<and> m (src + of_nat len) \<noteq> 0
      then copy_name src name (len + 1) (mem_write m (name + of_nat len) [m (src + of_nat len)])
      else m)"
  by pat_completeness auto
termination
  by (relation "measure (\<lambda>(src, name, len, m). MB1_NAME_MAX - 1 - len)") auto

declare copy_name.simps [simp del]

definition module_entry :: "u64 \<Rightarrow> nat \<Rightarrow> module_info \<Rightarrow> multiboot_module" where
  "module_entry base_at i mi =
     \<lparr>mod_start = ucast (phys_start mi), mod_end = ucast (phys_start mi + mod_size mi),
      mod_string = ucast (base_at + of_nat (MB1_NAMES_AT + i * MB1_NAME_MAX)), mod_reserved = 0\<rparr>"

fun write_modules1 :: "u64 \<Rightarrow> module_info list \<Rightarrow> nat \<Rightarrow> memory \<Rightarrow> memory" where
  "write_modules1 base_at [] i m = m"
| "write_modules1 base_at (mi # modules) i m =
     (let name = base_at + of_nat (MB1_NAMES_AT + i * MB1_NAME_MAX);
          m = copy_name (name_ptr mi) name 0 m;
          m = mem_write m (base_at + of_nat (MB1_MODULES_AT + i * SIZEOF_MODULE))
                (module_bytes (module_entry base_at i mi))
      in write_modules1 base_at modules (i + 1) m)"

definition build_mb1_info :: "mem_desc list \<Rightarrow> module_info list \<Rightarrow> 'f mach \<Rightarrow> u32 \<times> 'f mach" where
  "build_mb1_info memory_map modules st =
     (let base_at = INFO_AT st;
          m = mem_fill (mem st) base_at INFO_SIZE 0;
          (mmap_count, lower, upper, m) = write_mmap1 base_at memory_map 0 0 0 m;
          lower = (if lower > 640 then 640 else lower);
          flags = MB_INFO_MEMORY OR MB_INFO_MEM_MAP;
          mod_count = min (length modules) MAX_MODULES;
          m = write_modules1 base_at (take mod_count modules) 0 m;
          flags = (if 0 < mod_count then flags OR MB_INFO_MODS else flags);
          mbi = \<lparr>mbi_flags = flags, mem_lower = ucast lower, mem_upper = ucast upper,
                 boot_device = 0, cmdline = 0, mods_count = of_nat mod_count,
                 mods_addr = (if 0 < mod_count then ucast (base_at + of_nat MB1_MODULES_AT) else 0),
                 syms = [0, 0, 0, 0], mmap_length = of_nat (mmap_count * SIZEOF_MMAP_ENTRY),
                 mmap_addr = ucast (base_at + of_nat MB1_MMAP_AT)\<rparr>
      in (ucast base_at, st\<lparr>mem := mem_write m base_at (mbi_bytes mbi)\<rparr>))"

section \<open>What each part writes\<close>

lemma length_module_bytes [simp]: "length (module_bytes x) = 16"
  by (simp add: module_bytes_def)

lemma length_mmap_bytes [simp]: "length (mmap_bytes x) = 24"
  by (simp add: mmap_bytes_def)

text \<open>The bytes from one offset to another, of the reserved memory.\<close>

definition part :: "u64 \<Rightarrow> memory \<Rightarrow> nat \<Rightarrow> nat \<Rightarrow> bytes" where
  "part a m k n = slice (info.view a m) k n"

lemma part_put: "k + length bs \<le> INFO_SIZE \<Longrightarrow> n = length bs \<Longrightarrow> part a (win_put a m k bs) k n = bs"
  by (simp add: part_def info.slice_put)

lemma part_put_frame:
  "k + length bs \<le> INFO_SIZE \<Longrightarrow> j + n \<le> INFO_SIZE \<Longrightarrow> j + n \<le> k \<or> k + length bs \<le> j \<Longrightarrow>
   part a (win_put a m k bs) j n = part a m j n"
  by (simp add: part_def info.slice_put_frame)

lemma part_nth: "k + n \<le> INFO_SIZE \<Longrightarrow> i < n \<Longrightarrow> part a m k n ! i = m (a + of_nat (k + i))"
  by (simp add: part_def nth_slice win_get_def)

lemma length_part: "k + n \<le> INFO_SIZE \<Longrightarrow> length (part a m k n) = n"
  by (simp add: part_def)

text \<open>Short of its field: what is written, and the zeros that were there.\<close>

lemma part_put_short:
  assumes "length bs \<le> n" and "k + n \<le> INFO_SIZE" and "part a m k n = replicate n 0"
  shows "part a (win_put a m k bs) k n = bs @ replicate (n - length bs) 0"
proof (rule nth_equalityI)
  show "length (part a (win_put a m k bs) k n) = length (bs @ replicate (n - length bs) 0)"
    using assms by (simp add: length_part)
  fix i assume "i < length (part a (win_put a m k bs) k n)"
  then have i: "i < n" using assms(2) by (simp add: length_part)
  have small: "INFO_SIZE \<le> 2 ^ 64" by (simp add: INFO_SIZE_def)
  have "m (a + of_nat (k + i)) = 0"
    using part_nth [OF assms(2) i, of a m] assms(3) i by simp
  then show "part a (win_put a m k bs) k n ! i = (bs @ replicate (n - length bs) 0) ! i"
    using part_nth [OF assms(2) i] win_get_put [of k bs "k + i" a m] assms i small
    by (simp add: win_get_def nth_append)
qed

lemma mmap1_result:
  assumes "write_mmap1 a ds c lo up m = (c', lo', up', m')" and "c \<le> MB1_MMAP_MAX"
  shows "c' = c + min (length ds) (MB1_MMAP_MAX - c) \<and> same_outside a INFO_SIZE m m' \<and>
    (lo', up') = fold (\<lambda>d (l, u). count_memory d l u) (take (MB1_MMAP_MAX - c) ds) (lo, up) \<and>
    (\<forall>j n. j + n \<le> MB1_MMAP_AT + c * 24 \<longrightarrow> part a m' j n = part a m j n) \<and>
    (\<forall>i < c' - c. part a m' (MB1_MMAP_AT + (c + i) * 24) 24 = mmap_bytes (mmap_entry1 (ds ! i)))"
  using assms
proof (induction ds arbitrary: c lo up m)
  case Nil
  then show ?case by simp
next
  case (Cons d ds)
  show ?case
  proof (cases "MB1_MMAP_MAX \<le> c")
    case True
    with Cons.prems show ?thesis by simp
  next
    case False
    then have fit: "MB1_MMAP_AT + c * 24 + 24 \<le> INFO_SIZE" by (simp add: mb1_layout)
    let ?b = "mmap_bytes (mmap_entry1 d)"
    let ?m = "win_put a m (MB1_MMAP_AT + c * 24) ?b"
    obtain lo1 up1 where cm: "count_memory d lo up = (lo1, up1)" by force
    have "write_mmap1 a ds (c + 1) lo1 up1 ?m = (c', lo', up', m')"
      using Cons.prems(1) False cm by (simp add: mem_write_put SIZEOF_MMAP_ENTRY_def del: count_memory.simps of_nat_add)
    moreover have c1: "c + 1 \<le> MB1_MMAP_MAX" using False by simp
    ultimately have IH: "c' = c + 1 + min (length ds) (MB1_MMAP_MAX - (c + 1))"
        "same_outside a INFO_SIZE ?m m'"
        "(lo', up') = fold (\<lambda>d (l, u). count_memory d l u) (take (MB1_MMAP_MAX - (c + 1)) ds) (lo1, up1)"
        "\<And>j n. j + n \<le> MB1_MMAP_AT + (c + 1) * 24 \<Longrightarrow> part a m' j n = part a ?m j n"
        "\<And>i. i < c' - (c + 1) \<Longrightarrow> part a m' (MB1_MMAP_AT + (c + 1 + i) * 24) 24 = mmap_bytes (mmap_entry1 (ds ! i))"
      using Cons.IH [of "c + 1" lo1 up1 ?m] by blast+
    have k: "MB1_MMAP_MAX - c = Suc (MB1_MMAP_MAX - (c + 1))" using False by simp
    have out: "same_outside a INFO_SIZE m ?m"
      using fit by (intro same_outside_put) (simp_all add: INFO_SIZE_def)
    have "part a m' (MB1_MMAP_AT + c * 24) 24 = part a ?m (MB1_MMAP_AT + c * 24) 24"
      by (rule IH(4)) simp
    also have "\<dots> = ?b" using fit by (intro part_put) simp_all
    finally have here: "part a m' (MB1_MMAP_AT + c * 24) 24 = ?b" .
    have entries: "part a m' (MB1_MMAP_AT + (c + i) * 24) 24 = mmap_bytes (mmap_entry1 ((d # ds) ! i))"
      if "i < c' - c" for i
    proof (cases i)
      case 0
      with here show ?thesis by simp
    next
      case (Suc j)
      with that IH(5) [of j] show ?thesis by simp
    qed
    have below: "part a m' j n = part a m j n" if "j + n \<le> MB1_MMAP_AT + c * 24" for j n
      using IH(4) [of j n] that fit part_put_frame [of "MB1_MMAP_AT + c * 24" ?b j n a m] by simp
    show ?thesis
    proof (intro conjI allI impI)
      show "c' = c + min (length (d # ds)) (MB1_MMAP_MAX - c)" using IH(1) by (simp add: k)
      show "(lo', up') = fold (\<lambda>d (l, u). count_memory d l u) (take (MB1_MMAP_MAX - c) (d # ds)) (lo, up)"
        using IH(3) cm by (simp add: k del: count_memory.simps)
    qed (fact same_outside_trans [OF out IH(2)] below entries)+
  qed
qed

lemma copy_name_eq:
  assumes "c_string m src name" and "away a src (length name + 1)" and "k + 64 \<le> INFO_SIZE"
    and "n \<le> length name" and "n \<le> 63"
  shows "copy_name src (a + of_nat k) n (win_put a m k (take n name)) = win_put a m k (take 63 name)"
  using assms(4,5)
proof (induction "63 - n" arbitrary: n)
  case 0
  then show ?case by (subst copy_name.simps) (simp add: MB1_NAME_MAX_def)
next
  case (Suc d)
  let ?m = "win_put a m k (take n name)"
  have "same_outside a INFO_SIZE m ?m"
    using Suc.prems assms(3) by (intro same_outside_put) (simp_all add: INFO_SIZE_def)
  then have cs: "c_string ?m src name" by (rule c_string_away [OF _ assms(2,1)])
  show ?case
  proof (cases "n < length name")
    case True
    have nz: "?m (src + of_nat n) = name ! n" "name ! n \<noteq> 0"
      using c_string_nth [OF cs True] cs True by (auto simp: c_string_def in_set_conv_nth)
    have "mem_write ?m (a + of_nat k + of_nat n) [name ! n] = win_put a m k (take (n + 1) name)"
      using True win_put_put [of "k + n" k "take n name" "[name ! n]" a m] Suc.prems
      by (simp add: win_put_def add.assoc take_Suc_conv_app_nth)
    moreover have "copy_name src (a + of_nat k) (n + 1) (win_put a m k (take (n + 1) name)) =
        win_put a m k (take 63 name)"
      using Suc True by (intro Suc.hyps) simp_all
    ultimately show ?thesis
      using Suc nz True by (subst copy_name.simps) (simp add: MB1_NAME_MAX_def)
  next
    case False
    then have "?m (src + of_nat n) = 0" using c_string_end [OF cs] Suc.prems by simp
    with False Suc show ?thesis by (subst copy_name.simps) simp
  qed
qed

lemma layout_values: "MB1_MODULES_AT = 64" "MB1_NAMES_AT = 576" "MB1_MMAP_AT = 2624" "MB1_MMAP_MAX = 573"
  "MB1_NAME_MAX = 64" "SIZEOF_MODULE = 16" "MAX_MODULES = 32" "SIZEOF_MMAP_ENTRY = 24" "INFO_SIZE = 16384"
  by (simp_all add: mb1_layout)

definition name_field :: "bytes \<Rightarrow> bytes" where
  "name_field name = take 63 name @ replicate (64 - length (take 63 name)) 0"

text \<open>Where the entry and the name of the \<open>i\<close>-th module are, and the parts that neither touches.\<close>

definition clear_of :: "nat \<Rightarrow> nat \<Rightarrow> nat \<Rightarrow> nat \<Rightarrow> bool" where
  "clear_of i j k n \<longleftrightarrow> k + n \<le> INFO_SIZE \<and>
     (k + n \<le> 64 + 16 * i \<or> 64 + 16 * j \<le> k \<and> k + n \<le> 576 + 64 * i \<or> 576 + 64 * j \<le> k)"

lemma clear_of_mono: "clear_of i j k n \<Longrightarrow> i \<le> i' \<Longrightarrow> j' \<le> j \<Longrightarrow> clear_of i' j' k n"
  by (auto simp: clear_of_def)

text \<open>One module: its name, then its entry.\<close>

lemma one_module_put:
  assumes "named a m mi name" and "i < 32"
  shows "copy_name (name_ptr mi) (a + of_nat (MB1_NAMES_AT + i * MB1_NAME_MAX)) 0 m =
    win_put a m (576 + 64 * i) (take 63 name)"
  using copy_name_eq [of m "name_ptr mi" name a "576 + 64 * i" 0] assms
  by (simp add: named_def layout_values win_put_def mult.commute)

lemma one_module:
  assumes "i < 32" and "part a m (576 + 64 * i) 64 = replicate 64 0"
    and "m' = win_put a (win_put a m (576 + 64 * i) (take 63 name)) (64 + 16 * i) (module_bytes x)"
  shows "part a m' (64 + 16 * i) 16 = module_bytes x" and "part a m' (576 + 64 * i) 64 = name_field name"
    and "clear_of i (i + 1) k n \<Longrightarrow> part a m' k n = part a m k n" and "same_outside a INFO_SIZE m m'"
proof -
  let ?m = "win_put a m (576 + 64 * i) (take 63 name)"
  have l: "length (take 63 name) \<le> 63" by simp
  show "part a m' (64 + 16 * i) 16 = module_bytes x"
    unfolding assms(3) using assms(1) by (intro part_put) (simp_all add: layout_values)
  have "part a m' (576 + 64 * i) 64 = part a ?m (576 + 64 * i) 64"
    unfolding assms(3) using assms(1) by (intro part_put_frame) (simp_all add: layout_values)
  also have "\<dots> = name_field name"
    unfolding name_field_def using assms(1,2) l by (intro part_put_short) (simp_all add: layout_values)
  finally show "part a m' (576 + 64 * i) 64 = name_field name" .
  show "part a m' k n = part a m k n" if "clear_of i (i + 1) k n"
  proof -
    have "part a m' k n = part a ?m k n"
      unfolding assms(3) using assms(1) that
      by (intro part_put_frame) (auto simp: layout_values clear_of_def)
    also have "\<dots> = part a m k n"
      using assms(1) that l
      by (intro part_put_frame) (auto simp: layout_values clear_of_def)
    finally show ?thesis .
  qed
  have "same_outside a INFO_SIZE m ?m"
    using assms(1) by (intro same_outside_put) (simp_all add: layout_values)
  moreover have "same_outside a INFO_SIZE ?m m'"
    unfolding assms(3) using assms(1) by (intro same_outside_put) (simp_all add: layout_values)
  ultimately show "same_outside a INFO_SIZE m m'" by (rule same_outside_trans)
qed

definition module_written :: "u64 \<Rightarrow> memory \<Rightarrow> nat \<Rightarrow> module_info \<Rightarrow> bytes \<Rightarrow> bool" where
  "module_written a m i mi name \<longleftrightarrow> part a m (64 + 16 * i) 16 = module_bytes (module_entry a i mi) \<and>
     part a m (576 + 64 * i) 64 = name_field name"

lemma modules1_result:
  assumes "list_all2 (named a m0) modules names" and "same_outside a INFO_SIZE m0 m"
    and "i + length modules \<le> 32"
    and "\<And>j. i \<le> j \<Longrightarrow> j < 32 \<Longrightarrow> part a m (576 + 64 * j) 64 = replicate 64 0"
    and "m' = write_modules1 a modules i m"
  shows "same_outside a INFO_SIZE m m' \<and>
    (\<forall>j < length modules. module_written a m' (i + j) (modules ! j) (names ! j)) \<and>
    (\<forall>k n. clear_of i (i + length modules) k n \<longrightarrow> part a m' k n = part a m k n)"
  using assms
proof (induction modules names arbitrary: i m rule: list_all2_induct)
  case Nil
  then show ?case by simp
next
  case (Cons mi modules name names)
  define m1 where "m1 = win_put a (win_put a m (576 + 64 * i) (take 63 name)) (64 + 16 * i)
    (module_bytes (module_entry a i mi))"
  have i: "i < 32" using Cons.prems(2) by simp
  have n: "named a m mi name" by (rule named_same [OF Cons.prems(1) Cons.hyps(1)])
  note one = one_module [OF i Cons.prems(3) [OF order_refl i] m1_def]
  have "m1 = mem_write (copy_name (name_ptr mi) (a + of_nat (MB1_NAMES_AT + i * MB1_NAME_MAX)) 0 m)
      (a + of_nat (MB1_MODULES_AT + i * SIZEOF_MODULE)) (module_bytes (module_entry a i mi))"
    unfolding m1_def one_module_put [OF n i, symmetric]
    by (simp add: win_put_def layout_values mult.commute)
  then have m': "m' = write_modules1 a modules (i + 1) m1" using Cons.prems(4) by (simp add: Let_def)
  have out: "same_outside a INFO_SIZE m0 m1" by (rule same_outside_trans [OF Cons.prems(1) one(4)])
  have zero: "part a m1 (576 + 64 * j) 64 = replicate 64 0" if "i + 1 \<le> j" "j < 32" for j
    using one(3) [of "576 + 64 * j" 64] Cons.prems(3) [of j] that by (simp add: clear_of_def layout_values)
  have "same_outside a INFO_SIZE m1 m' \<and>
      (\<forall>j < length modules. module_written a m' (i + 1 + j) (modules ! j) (names ! j)) \<and>
      (\<forall>k n. clear_of (i + 1) (i + 1 + length modules) k n \<longrightarrow> part a m' k n = part a m1 k n)"
    using Cons.prems(2) by (intro Cons.IH out zero m') simp_all
  then have IH: "same_outside a INFO_SIZE m1 m'"
      "\<And>j. j < length modules \<Longrightarrow> module_written a m' (i + 1 + j) (modules ! j) (names ! j)"
      "\<And>k n. clear_of (i + 1) (i + 1 + length modules) k n \<Longrightarrow> part a m' k n = part a m1 k n"
    by blast+
  have first: "module_written a m' i mi name"
    using one(1,2) IH(3) [of "64 + 16 * i" 16] IH(3) [of "576 + 64 * i" 64] i Cons.prems(2)
    by (simp add: module_written_def clear_of_def layout_values)
  show ?case
  proof (intro conjI allI impI)
    show "same_outside a INFO_SIZE m m'" by (rule same_outside_trans [OF one(4) IH(1)])
  next
    fix j assume "j < length (mi # modules)"
    then show "module_written a m' (i + j) ((mi # modules) ! j) ((name # names) ! j)"
      using first IH(2) [of "j - 1"] by (cases j) simp_all
  next
    fix k n assume c: "clear_of i (i + length (mi # modules)) k n"
    then show "part a m' k n = part a m k n"
      using IH(3) [OF clear_of_mono [OF c]] one(3) [OF clear_of_mono [OF c]] by simp
  qed
qed

section \<open>The whole structure\<close>

definition mb1_memory :: "mem_desc list \<Rightarrow> u64 \<times> u64" where
  "mb1_memory descs = fold (\<lambda>d (l, u). count_memory d l u) (take MB1_MMAP_MAX descs) (0, 0)"

definition mb1_header :: "u64 \<Rightarrow> mem_desc list \<Rightarrow> nat \<Rightarrow> multiboot_info" where
  "mb1_header a descs n =
     \<lparr>mbi_flags = MB_INFO_MEMORY OR MB_INFO_MEM_MAP OR (if 0 < n then MB_INFO_MODS else 0),
      mem_lower = ucast (min 640 (fst (mb1_memory descs))), mem_upper = ucast (snd (mb1_memory descs)),
      boot_device = 0, cmdline = 0, mods_count = of_nat n,
      mods_addr = (if 0 < n then ucast (a + 64) else 0), syms = [0, 0, 0, 0],
      mmap_length = of_nat (24 * min (length descs) MB1_MMAP_MAX), mmap_addr = ucast (a + 2624)\<rparr>"

lemma length_mbi_bytes: "length (syms x) = 4 \<Longrightarrow> length (mbi_bytes x) = 52"
  by (cases "syms x" rule: remdups_adj.cases)
    (auto simp: mbi_bytes_def length_concat length_Suc_conv numeral_eq_Suc)

lemma cleared_part: "k + n \<le> INFO_SIZE \<Longrightarrow> part a (mem_fill m a INFO_SIZE 0) k n = replicate n 0"
  by (rule nth_equalityI) (simp_all add: length_part part_nth mem_fill_def unat_offset INFO_SIZE_def del: of_nat_add)

lemma min_640: "(if (640 :: u64) < x then 640 else x) = min 640 x"
  by (auto simp: min_def)

lemma build_mb1_info_parts:
  fixes st :: "'f mach"
  assumes named: "list_all2 (named (INFO_AT st) (mem st)) modules names"
    and run: "build_mb1_info descs modules st = (p, st')"
  defines "a \<equiv> INFO_AT st" and "n \<equiv> min (length modules) 32" and "k \<equiv> min (length descs) 573"
  shows "p = ucast a" and "same_outside a INFO_SIZE (mem st) (mem st')"
    and "part a (mem st') 0 52 = mbi_bytes (mb1_header a descs n)"
    and "\<And>i. i < n \<Longrightarrow> module_written a (mem st') i (modules ! i) (names ! i)"
    and "\<And>i. i < k \<Longrightarrow> part a (mem st') (2624 + 24 * i) 24 = mmap_bytes (mmap_entry1 (descs ! i))"
    and "INFO_AT st' = a" and "fw st' = fw st"
proof -
  let ?z = "mem_fill (mem st) a INFO_SIZE 0"
  obtain c lo up m1 where w: "write_mmap1 a descs 0 0 0 ?z = (c, lo, up, m1)" by (metis prod_cases4)
  note mm = mmap1_result [OF w, simplified]
  then have c: "c = k" "same_outside a INFO_SIZE ?z m1" "(lo, up) = mb1_memory descs"
    and below: "\<And>j n. j + n \<le> 2624 \<Longrightarrow> part a m1 j n = part a ?z j n"
    and entries: "\<And>i. i < k \<Longrightarrow> part a m1 (2624 + 24 * i) 24 = mmap_bytes (mmap_entry1 (descs ! i))"
    by (simp_all add: layout_values k_def mb1_memory_def mult.commute min.commute)
  have z: "same_outside a INFO_SIZE (mem st) ?z" by (simp add: same_outside_def INFO_SIZE_def)
  have o1: "same_outside a INFO_SIZE (mem st) m1" by (rule same_outside_trans [OF z c(2)])
  define m2 where "m2 = write_modules1 a (take n modules) 0 m1"
  have named1: "list_all2 (named a m1) (take n modules) (take n names)"
    using named o1 unfolding a_def by (auto intro: list_all2_takeI named_same elim!: list_all2_mono)
  have "part a m1 (576 + 64 * j) 64 = replicate 64 0" if "j < 32" for j
    using that below [of "576 + 64 * j" 64] cleared_part [of "576 + 64 * j" 64 a "mem st"]
    by (simp add: layout_values)
  then have r: "same_outside a INFO_SIZE m1 m2"
      "\<And>j. j < n \<Longrightarrow> module_written a m2 j (modules ! j) (names ! j)"
      "\<And>k l. clear_of 0 n k l \<Longrightarrow> part a m2 k l = part a m1 k l"
    using modules1_result [OF named1 same_outside_refl, of 0 m2] by (auto simp: m2_def n_def)
  let ?h = "mbi_bytes (mb1_header a descs n)"
  define m3 where "m3 = win_put a m2 0 ?h"
  have lh: "length ?h = 52" by (intro length_mbi_bytes) (simp add: mb1_header_def)
  have eq: "build_mb1_info descs modules st = (ucast a, st\<lparr>mem := m3\<rparr>)"
    using w c(1) fst_conv [of lo up] snd_conv [of lo up] unfolding c(3)
    by (simp add: build_mb1_info_def Let_def m3_def m2_def win_put_def mb1_header_def layout_values
        n_def k_def a_def min_640 mult.commute or.assoc)
  then have st': "st' = st\<lparr>mem := m3\<rparr>" and p: "p = ucast a" using run by simp_all
  have keep: "part a m3 j l = part a m2 j l" if "52 \<le> j" "j + l \<le> INFO_SIZE" for j l
    unfolding m3_def using that lh by (intro part_put_frame) (simp_all add: layout_values)
  show "part a (mem st') 0 52 = ?h"
    unfolding st' m3_def using lh by (simp add: part_put layout_values)
  show "module_written a (mem st') i (modules ! i) (names ! i)" if "i < n" for i
    using r(2) [OF that] keep that by (simp add: st' module_written_def n_def layout_values)
  show "part a (mem st') (2624 + 24 * i) 24 = mmap_bytes (mmap_entry1 (descs ! i))" if "i < k" for i
    using entries [OF that] r(3) [of "2624 + 24 * i" 24] keep [of "2624 + 24 * i" 24] that
    by (simp add: st' k_def n_def layout_values clear_of_def)
  have "same_outside a INFO_SIZE m2 m3"
    unfolding m3_def using lh by (intro same_outside_put) (simp_all add: layout_values)
  with o1 r(1) show "same_outside a INFO_SIZE (mem st) (mem st')"
    by (auto simp: st' intro: same_outside_trans)
  show "p = ucast a" "INFO_AT st' = a" "fw st' = fw st" by (simp_all add: p st' a_def)
qed

text \<open>The memory sizes, in KiB, as sums over the memory map.\<close>

definition available :: "mem_desc \<Rightarrow> bool" where
  "available d \<longleftrightarrow> efi_memtype_to_mb (md_type d) = 1"

definition kib :: "mem_desc \<Rightarrow> nat" where
  "kib d = 4 * unat (md_page_count d)"

definition below_1m :: "mem_desc list \<Rightarrow> mem_desc list" where
  "below_1m = filter (\<lambda>d. available d \<and> md_phys_start d < 0x100000)"

definition from_1m :: "mem_desc list \<Rightarrow> mem_desc list" where
  "from_1m = filter (\<lambda>d. available d \<and> \<not> md_phys_start d < 0x100000)"

definition upper_run :: "mem_desc list \<Rightarrow> mem_desc list" where
  "upper_run ds = dropWhile (\<lambda>d. md_phys_start d \<noteq> 0x100000) (from_1m ds)"

definition sane_map :: "mem_desc list \<Rightarrow> bool" where
  "sane_map ds \<longleftrightarrow> (\<forall>d \<in> set ds. 0 < md_page_count d) \<and> sum_list (map kib ds) < 2 ^ 54"

lemma kib_word:
  assumes "kib d < 2 ^ 54"
  shows "unat (md_page_count d * 4096 div 1024) = kib d"
proof -
  have "unat (md_page_count d) * 4096 < 2 ^ 64" using assms by (simp add: kib_def)
  then have "unat (md_page_count d * 4096) = unat (md_page_count d) * 4096"
    using unat_mult_no_overflow [of "md_page_count d" 4096] by simp
  then show ?thesis by (simp add: unat_div kib_def)
qed

lemma kib_add:
  "unat x + kib d < 2 ^ 54 \<Longrightarrow> unat (x + md_page_count d * 4096 div 1024) = unat x + kib d"
  using unat_add_no_overflow [of x "md_page_count d * 4096 div 1024"] kib_word [of d] by simp

lemma count_memory_sums:
  assumes "(lo', up') = fold (\<lambda>d (l, u). count_memory d l u) ds (lo, up)"
    and "\<forall>d \<in> set ds. 0 < md_page_count d" and "unat lo + unat up + sum_list (map kib ds) < 2 ^ 54"
  shows "unat lo' = unat lo + sum_list (map kib (below_1m ds)) \<and>
    unat up' = unat up + sum_list (map kib (if 0 < up then from_1m ds else upper_run ds))"
  using assms
proof (induction ds arbitrary: lo up)
  case Nil
  then show ?case by (simp add: below_1m_def from_1m_def upper_run_def)
next
  case (Cons d ds)
  obtain lo1 up1 where cm: "count_memory d lo up = (lo1, up1)" by force
  have pos: "0 < kib d" using Cons.prems(2) by (simp add: kib_def unat_gt_0 word_neq_0_conv)
  have lk: "unat lo + kib d < 2 ^ 54" "unat up + kib d < 2 ^ 54" using Cons.prems(3) by simp_all
  have c: "count_memory d lo up =
      (if available d \<and> md_phys_start d < 0x100000 then (lo + md_page_count d * 4096 div 1024, up)
       else if available d \<and> (md_phys_start d = 0x100000 \<or> 0x100000 < md_phys_start d \<and> 0 < up)
         then (lo, up + md_page_count d * 4096 div 1024) else (lo, up))"
    by (simp add: available_def Let_def)
  have step: "unat lo1 + unat up1 + sum_list (map kib ds) < 2 ^ 54"
    using Cons.prems(3) cm lk unfolding c by (auto simp: kib_add split: if_splits)
  have IH: "unat lo' = unat lo1 + sum_list (map kib (below_1m ds)) \<and>
      unat up' = unat up1 + sum_list (map kib (if 0 < up1 then from_1m ds else upper_run ds))"
    using Cons.prems cm by (intro Cons.IH step) (simp_all del: count_memory.simps)
  consider (low) "available d" "md_phys_start d < 0x100000"
    | (first) "available d" "md_phys_start d = 0x100000"
    | (high) "available d" "0x100000 < md_phys_start d"
    | (other) "\<not> available d"
    by fastforce
  then show ?case
  proof cases
    case low
    then have "lo1 = lo + md_page_count d * 4096 div 1024" "up1 = up" using cm unfolding c by auto
    with IH low lk show ?thesis by (simp add: kib_add below_1m_def from_1m_def upper_run_def)
  next
    case first
    then have l: "lo1 = lo" "up1 = up + md_page_count d * 4096 div 1024" using cm unfolding c by auto
    then have u: "unat up1 = unat up + kib d" using lk by (simp add: kib_add)
    with pos have "0 < up1" by (metis add_gr_0 unat_0 word_gt_0 less_numeral_extra(3))
    with IH first l(1) u show ?thesis by (simp add: below_1m_def from_1m_def upper_run_def)
  next
    case high
    then have nl: "\<not> md_phys_start d < 0x100000" "md_phys_start d \<noteq> 0x100000" by auto
    show ?thesis
    proof (cases "0 < up")
      case True
      then have l: "lo1 = lo" "up1 = up + md_page_count d * 4096 div 1024" using cm high nl unfolding c by auto
      then have u: "unat up1 = unat up + kib d" using lk by (simp add: kib_add)
      with pos have "0 < up1" by (metis add_gr_0 unat_0 word_gt_0 less_numeral_extra(3))
      with IH high nl True l(1) u show ?thesis by (simp add: below_1m_def from_1m_def)
    next
      case False
      then have "lo1 = lo" "up1 = up" using cm high nl unfolding c by auto
      with IH high nl False show ?thesis by (simp add: below_1m_def from_1m_def upper_run_def)
    qed
  next
    case other
    then have "lo1 = lo" "up1 = up" using cm unfolding c by auto
    with IH other show ?thesis by (simp add: below_1m_def from_1m_def upper_run_def)
  qed
qed

lemma module_name_string:
  assumes "module_written a m i mi name" and "i < 32" and "0 \<notin> set name"
  shows "c_string m (a + of_nat (576 + 64 * i)) (take 63 name)"
proof -
  have b: "m (a + of_nat (576 + 64 * i + j)) = name_field name ! j" if "j < 64" for j
    using assms(1,2) part_nth [of "576 + 64 * i" 64 j a m] that
    by (simp add: module_written_def layout_values del: of_nat_add)
  show ?thesis
  proof (rule c_stringI)
    show "0 \<notin> set (take 63 name)" using assms(3) by (auto dest: in_set_takeD)
    fix j assume j: "j < length (take 63 name)"
    then show "m (a + of_nat (576 + 64 * i) + of_nat j) = take 63 name ! j"
      using b [of j] by (simp add: name_field_def nth_append add.assoc)
  next
    have "length (take 63 name) < 64" by simp
    then show "m (a + of_nat (576 + 64 * i) + of_nat (length (take 63 name))) = 0"
      using b [of "length (take 63 name)"] by (simp add: name_field_def nth_append add.assoc)
  qed
qed

section \<open>What the kernel is told\<close>

text \<open>
  C11: \<open>build_mb1_info\<close> for modules whose names are strings outside the reserved memory. The
  address returned is that memory's; at it are the header's 52 bytes, and at the places the header
  names the first 32 modules (each with its addresses and the first 63 bytes of its name as a
  string) and the first 573 entries of the memory map; nothing outside the memory has changed.
\<close>

theorem build_mb1_info_layout:
  assumes "list_all2 (named (INFO_AT st) (mem st)) modules names"
    and "build_mb1_info descs modules st = (p, st')" and "a = INFO_AT st"
  shows "p = ucast a \<and> same_outside a INFO_SIZE (mem st) (mem st') \<and>
    mem_read (mem st') a 52 = mbi_bytes (mb1_header a descs (min (length modules) 32)) \<and>
    (\<forall>i < min (length modules) 32.
       mem_read (mem st') (a + of_nat (64 + 16 * i)) 16 = module_bytes (module_entry a i (modules ! i)) \<and>
       c_string (mem st') (a + of_nat (576 + 64 * i)) (take 63 (names ! i))) \<and>
    (\<forall>i < min (length descs) 573.
       mem_read (mem st') (a + of_nat (2624 + 24 * i)) 24 = mmap_bytes (mmap_entry1 (descs ! i)))"
proof -
  note parts = build_mb1_info_parts [OF assms(1,2), folded assms(3)]
  have r: "mem_read m (a + of_nat k) l = part a m k l" if "k + l \<le> INFO_SIZE" for m k l
    using that by (intro nth_equalityI) (simp_all add: length_part part_nth add.assoc)
  have nz: "0 \<notin> set (names ! i)" if "i < length modules" for i
    using assms(1) that by (auto simp: list_all2_conv_all_nth named_def c_string_def)
  have "mem_read (mem st') a 52 = mbi_bytes (mb1_header a descs (min (length modules) 32))"
    using r [of 0 52] parts(3) by (simp add: layout_values)
  moreover have "mem_read (mem st') (a + of_nat (64 + 16 * i)) 16 = module_bytes (module_entry a i (modules ! i)) \<and>
       c_string (mem st') (a + of_nat (576 + 64 * i)) (take 63 (names ! i))" if "i < min (length modules) 32" for i
    using parts(4) [OF that] module_name_string [OF parts(4) [OF that]] nz that r [of "64 + 16 * i" 16]
    by (simp add: module_written_def layout_values del: of_nat_add)
  moreover have "mem_read (mem st') (a + of_nat (2624 + 24 * i)) 24 = mmap_bytes (mmap_entry1 (descs ! i))"
    if "i < min (length descs) 573" for i
    using parts(5) [OF that] that r [of "2624 + 24 * i" 24] by (simp add: layout_values del: of_nat_add)
  ultimately show ?thesis using parts(1,2) by blast
qed

theorem build_mb1_info_layout_witness:
  "\<exists>st'. build_mb1_info [demo_desc] [demo_module] (demo_info [0x61]) = (0x100000, st') \<and>
    mem_read (mem st') 0x100040 16 = module_bytes (module_entry 0x100000 0 demo_module) \<and>
    c_string (mem st') 0x100240 [0x61]"
proof -
  have n: "list_all2 (named (INFO_AT (demo_info [0x61])) (mem (demo_info [0x61]))) [demo_module] [[0x61]]"
    by (rule demo_named) simp_all
  obtain p st' where b: "build_mb1_info [demo_desc] [demo_module] (demo_info [0x61]) = (p, st')" by force
  note w = build_mb1_info_layout [OF n b refl]
  then have "p = 0x100000" by (simp add: demo_info_def)
  moreover have "mem_read (mem st') 0x100040 16 = module_bytes (module_entry 0x100000 0 demo_module) \<and>
    c_string (mem st') 0x100240 [0x61]"
    using w by (simp add: demo_info_def)
  ultimately show ?thesis using b by auto
qed



end
