(* ===== verification/Config.thy ===== *)
theory Config
  imports DemoFirmware
begin

text \<open>
  \<open>config.rs\<close>: the boot entries, and the parser of \<open>\bang.cfg\<close>. What the parser prints about a
  line it cannot use is kept, as a list of notices.
\<close>

datatype target =
    Multiboot (mb_kernel: cstr16) (mb_modules: "cstr16 option")
  | Chainload (cl_path: cstr16) (cl_device: "handle option")
  | Linux (lx_kernel: cstr16) (lx_initrd: "cstr16 option") (lx_cmdline: ustr)

record entry =
  title :: ustr
  target :: target

record config =
  timeout :: u64
  default_entry :: nat
  entries :: "entry list"
  autodetect :: bool

definition builtin :: config where
  "builtin = \<lparr>timeout = 0, default_entry = 0,
     entries = [\<lparr>title = lit ''Quark'',
                target = Multiboot (lit16 [CHR 0x5C] @ lit16 ''kernel.bin'') (Some (lit16 [CHR 0x5C] @ lit16 ''drivers''))\<rparr>],
     autodetect = True\<rparr>"

datatype notice =
    CannotUsePath ustr
  | BeforeAnyEntry ustr
  | ModulesOnlyMultiboot
  | InitrdOnlyLinux
  | OptionsOnlyLinux
  | Ignoring ustr
  | NoEntryNamed ustr

section \<open>Lines\<close>

text \<open>\<open>raw.split('#').next().unwrap_or("").trim()\<close>, and a line's directive and argument.\<close>

definition clean_line :: "ustr \<Rightarrow> ustr" where
  "clean_line raw = trim (takeWhile (\<lambda>c. c \<noteq> 35) raw)"

definition split :: "ustr \<Rightarrow> ustr \<times> ustr" where
  "split line =
     (let line = trim line
      in (takeWhile (\<lambda>c. \<not> is_whitespace c) line, trim (dropWhile (\<lambda>c. \<not> is_whitespace c) line)))"

text \<open>
  \<open>path\<close>: \<open>CString16::try_from\<close> is the crate's, and an argument here; a path it refuses is noticed.
\<close>

definition path :: "(ustr \<Rightarrow> cstr16 option) \<Rightarrow> ustr \<Rightarrow> cstr16 option \<times> notice list" where
  "path conv arg = (case conv arg of Some p \<Rightarrow> (Some p, []) | None \<Rightarrow> (None, [CannotUsePath arg]))"

section \<open>Directives\<close>

record parser =
  cfg :: config
  default_title :: "ustr option"
  notices :: "notice list"

definition note_that :: "notice list \<Rightarrow> parser \<Rightarrow> parser" where
  "note_that ns p = p\<lparr>notices := notices p @ ns\<rparr>"

definition set_target :: "target \<Rightarrow> parser \<Rightarrow> parser" where
  "set_target t p = p\<lparr>cfg := (cfg p)\<lparr>entries :=
     butlast (entries (cfg p)) @ [(last (entries (cfg p)))\<lparr>target := t\<rparr>]\<rparr>\<rparr>"

text \<open>The directives that fill in the last entry, which is there.\<close>

definition entry_directive :: "(ustr \<Rightarrow> cstr16 option) \<Rightarrow> ustr \<Rightarrow> ustr \<Rightarrow> parser \<Rightarrow> parser" where
  "entry_directive conv directive arg p =
     (let t = target (last (entries (cfg p)));
          (po, ns) = path conv arg
      in if directive = lit ''multiboot'' then
           (case po of Some q \<Rightarrow> set_target (Multiboot q None) p | None \<Rightarrow> note_that ns p)
         else if directive = lit ''modules'' then
           (case t of Multiboot k _ \<Rightarrow> note_that ns (set_target (Multiboot k po) p)
            | _ \<Rightarrow> note_that [ModulesOnlyMultiboot] p)
         else if directive = lit ''chainload'' then
           (case po of Some q \<Rightarrow> set_target (Chainload q None) p | None \<Rightarrow> note_that ns p)
         else if directive = lit ''linux'' then
           (case po of Some q \<Rightarrow> set_target (Linux q None []) p | None \<Rightarrow> note_that ns p)
         else if directive = lit ''initrd'' then
           (case t of Linux k _ c \<Rightarrow> note_that ns (set_target (Linux k po c) p)
            | _ \<Rightarrow> note_that [InitrdOnlyLinux] p)
         else if directive = lit ''options'' then
           (case t of Linux k i _ \<Rightarrow> set_target (Linux k i arg) p
            | _ \<Rightarrow> note_that [OptionsOnlyLinux] p)
         else note_that [Ignoring directive] p)"

definition off_words :: "ustr list" where
  "off_words = [lit ''off'', lit ''no'', lit ''false'', lit ''0'']"

definition directive_step :: "(ustr \<Rightarrow> cstr16 option) \<Rightarrow> ustr \<Rightarrow> ustr \<Rightarrow> parser \<Rightarrow> parser" where
  "directive_step conv directive arg p =
     (if directive = lit ''timeout'' then
        p\<lparr>cfg := (cfg p)\<lparr>timeout := (case parse_u64 arg of Some n \<Rightarrow> of_nat n | None \<Rightarrow> 5)\<rparr>\<rparr>
      else if directive = lit ''autodetect'' then
        p\<lparr>cfg := (cfg p)\<lparr>autodetect := arg \<notin> set off_words\<rparr>\<rparr>
      else if directive = lit ''default'' then
        (case parse_u64 arg of
           Some n \<Rightarrow> p\<lparr>cfg := (cfg p)\<lparr>default_entry := n\<rparr>\<rparr>
         | None \<Rightarrow> p\<lparr>default_title := Some arg\<rparr>)
      else if directive = lit ''entry'' then
        p\<lparr>cfg := (cfg p)\<lparr>entries := entries (cfg p) @ [\<lparr>title = arg, target = Multiboot [] None\<rparr>]\<rparr>\<rparr>
      else if entries (cfg p) = [] then note_that [BeforeAnyEntry directive] p
      else entry_directive conv directive arg p)"

definition line_step :: "(ustr \<Rightarrow> cstr16 option) \<Rightarrow> ustr \<Rightarrow> parser \<Rightarrow> parser" where
  "line_step conv raw p =
     (let line = clean_line raw
      in if line = [] then p
         else (case split line of (directive, arg) \<Rightarrow> directive_step conv directive arg p))"

section \<open>The file\<close>

definition bootable :: "entry \<Rightarrow> bool" where
  "bootable e = (case target e of Multiboot k _ \<Rightarrow> k \<noteq> [] | _ \<Rightarrow> True)"

fun position :: "('a \<Rightarrow> bool) \<Rightarrow> 'a list \<Rightarrow> nat option" where
  "position P [] = None"
| "position P (x # xs) = (if P x then Some 0 else map_option Suc (position P xs))"

definition initial_parser :: parser where
  "initial_parser = \<lparr>cfg = \<lparr>timeout = 5, default_entry = 0, entries = [], autodetect = True\<rparr>,
     default_title = None, notices = []\<rparr>"

definition finish :: "parser \<Rightarrow> config \<times> notice list" where
  "finish p =
     (let c = (cfg p)\<lparr>entries := filter bootable (entries (cfg p))\<rparr>;
          (c, ns) = (case default_title p of
             None \<Rightarrow> (c, notices p)
           | Some t \<Rightarrow> (case position (\<lambda>e. title e = t) (entries c) of
               Some i \<Rightarrow> (c\<lparr>default_entry := i\<rparr>, notices p)
             | None \<Rightarrow> (c, notices p @ [NoEntryNamed t])))
      in (if length (entries c) \<le> default_entry c then c\<lparr>default_entry := 0\<rparr> else c, ns))"

definition parse_lines :: "(ustr \<Rightarrow> cstr16 option) \<Rightarrow> ustr list \<Rightarrow> config \<times> notice list" where
  "parse_lines conv ls = finish (fold (line_step conv) ls initial_parser)"

definition parse :: "(ustr \<Rightarrow> cstr16 option) \<Rightarrow> ustr \<Rightarrow> config \<times> notice list" where
  "parse conv text = parse_lines conv (str_lines text)"

definition load :: "'f firmware \<Rightarrow> 'f \<Rightarrow> (config \<times> notice list) option \<times> 'f" where
  "load F f =
     (case get_image_file_system F f of (None, f) \<Rightarrow> (None, f) | (Some fs, f) \<Rightarrow>
     (case open_volume F fs f of (None, f) \<Rightarrow> (None, f) | (Some root, f) \<Rightarrow>
     (case dir_open F root (lit16 [CHR 0x5C] @ lit16 ''bang.cfg'') f of (None, f) \<Rightarrow> (None, f) | (Some h, f) \<Rightarrow>
     (case into_regular_file F h f of (None, f) \<Rightarrow> (None, f) | (Some fh, f) \<Rightarrow>
     (case get_file_size F fh f of (None, f) \<Rightarrow> (None, f) | (Some len, f) \<Rightarrow>
        if len = 0 \<or> 64 * 1024 < len then (None, f)
        else (case file_read F fh (unat len) f of (None, f) \<Rightarrow> (None, f) | (Some bs, f) \<Rightarrow>
          (case utf8_decode bs of
             None \<Rightarrow> (None, f)
           | Some text \<Rightarrow> (Some (parse (cstr16_of F) text), f))))))))"

section \<open>What every parse gives\<close>

text \<open>The directives are compared as strings.\<close>

declare lit_Cons [simp del]

lemma position_Some: "position P xs = Some i \<Longrightarrow> i < length xs \<and> P (xs ! i) \<and> (\<forall>j < i. \<not> P (xs ! j))"
proof (induction xs arbitrary: i)
  case (Cons x xs)
  show ?case
  proof (cases "P x")
    case False
    with Cons.prems obtain j where j: "position P xs = Some j" "i = Suc j" by auto
    then show ?thesis using Cons.IH [OF j(1)] False by (auto simp: less_Suc_eq_0_disj)
  qed (use Cons.prems in auto)
qed simp

lemma position_None: "position P xs = None \<longleftrightarrow> (\<forall>x \<in> set xs. \<not> P x)"
  by (induction xs) auto

text \<open>Every path of an entry is one the conversion gave.\<close>

definition target_ok :: "(ustr \<Rightarrow> cstr16 option) \<Rightarrow> target \<Rightarrow> bool" where
  "target_ok conv t = (case t of
     Multiboot k m \<Rightarrow> (k = [] \<or> Some k \<in> range conv) \<and> (m = None \<or> m \<in> range conv)
   | Chainload q d \<Rightarrow> Some q \<in> range conv \<and> d = None
   | Linux k i c \<Rightarrow> Some k \<in> range conv \<and> (i = None \<or> i \<in> range conv))"

definition entries_ok :: "(ustr \<Rightarrow> cstr16 option) \<Rightarrow> entry list \<Rightarrow> bool" where
  "entries_ok conv es \<longleftrightarrow> (\<forall>e \<in> set es. target_ok conv (target e))"

definition config_ok :: "(ustr \<Rightarrow> cstr16 option) \<Rightarrow> config \<Rightarrow> bool" where
  "config_ok conv c \<longleftrightarrow> entries_ok conv (entries c) \<and> (\<forall>e \<in> set (entries c). bootable e) \<and>
     (if entries c = [] then default_entry c = 0 else default_entry c < length (entries c))"

lemma notice_simps [simp]:
  "cfg (note_that ns p) = cfg p" "default_title (note_that ns p) = default_title p"
  by (simp_all add: note_that_def)

lemma set_target_simps [simp]:
  "entries (cfg (set_target t p)) = butlast (entries (cfg p)) @ [(last (entries (cfg p)))\<lparr>target := t\<rparr>]"
  "default_title (set_target t p) = default_title p"
  "notices (set_target t p) = notices p"
  by (simp_all add: set_target_def)

lemma path_result: "path conv arg = (po, ns) \<Longrightarrow> po = conv arg"
  by (cases "conv arg") (simp_all add: path_def)

lemma conv_range: "conv a = r \<Longrightarrow> r \<in> range conv"
  by blast

lemma set_target_ok:
  "entries_ok conv (entries (cfg p)) \<Longrightarrow> target_ok conv t \<Longrightarrow>
   entries_ok conv (entries (cfg (set_target t p)))"
  by (auto simp: entries_ok_def dest: in_set_butlastD)

lemma entry_directive_ok:
  assumes "entries_ok conv (entries (cfg p))" and "entries (cfg p) \<noteq> []"
  shows "entries_ok conv (entries (cfg (entry_directive conv d a p)))"
proof -
  let ?t = "target (last (entries (cfg p)))"
  have t: "target_ok conv ?t" using assms by (auto simp: entries_ok_def)
  obtain po ns where pa: "path conv a = (po, ns)" by force
  then have po: "po = None \<or> po \<in> range conv" using path_result by blast
  then have "target_ok conv (Multiboot q None)" "target_ok conv (Chainload q None)"
    "target_ok conv (Linux q None [])" if "po = Some q" for q
    using that by (auto simp: target_ok_def)
  moreover have "?t = Multiboot k m \<Longrightarrow> target_ok conv (Multiboot k po)"
    "?t = Linux k i c \<Longrightarrow> target_ok conv (Linux k po c)"
    "?t = Linux k i c \<Longrightarrow> target_ok conv (Linux k i a)" for k m i c
    using t po by (auto simp: target_ok_def)
  ultimately show ?thesis
    using assms(1) pa
    by (auto simp: entry_directive_def Let_def intro: set_target_ok simp del: set_target_simps(1)
        split: target.split option.split)
qed

lemma directive_step_ok:
  "entries_ok conv (entries (cfg p)) \<Longrightarrow> entries_ok conv (entries (cfg (directive_step conv d a p)))"
  using entry_directive_ok [of conv p d a]
  by (auto simp: directive_step_def entries_ok_def target_ok_def split: option.split)

lemma line_step_ok:
  "entries_ok conv (entries (cfg p)) \<Longrightarrow> entries_ok conv (entries (cfg (line_step conv l p)))"
  by (auto simp: line_step_def Let_def directive_step_ok split: prod.split)

lemma fold_line_step_ok:
  "entries_ok conv (entries (cfg p)) \<Longrightarrow> entries_ok conv (entries (cfg (fold (line_step conv) ls p)))"
  by (induction ls arbitrary: p) (simp_all add: line_step_ok)

lemma finish_entries: "entries (fst (finish p)) = filter bootable (entries (cfg p))"
  by (auto simp: finish_def Let_def split: option.split)

lemma finish_ok:
  assumes "entries_ok conv (entries (cfg p))"
  shows "config_ok conv (fst (finish p))"
proof -
  have "entries_ok conv (filter bootable (entries (cfg p)))"
    using assms by (simp add: entries_ok_def)
  moreover have "default_entry (fst (finish p)) < length (filter bootable (entries (cfg p))) \<or>
      default_entry (fst (finish p)) = 0"
    by (auto simp: finish_def Let_def split: option.split)
  ultimately show ?thesis by (auto simp: config_ok_def finish_entries)
qed

text \<open>Where a default named by title ends up.\<close>

lemma finish_default:
  "default_entry (fst (finish p)) =
    (let es = filter bootable (entries (cfg p));
         n = (case default_title p of None \<Rightarrow> default_entry (cfg p)
              | Some t \<Rightarrow> (case position (\<lambda>e. title e = t) es of Some i \<Rightarrow> i | None \<Rightarrow> default_entry (cfg p)))
     in if n < length es then n else 0)"
  by (auto simp: finish_def Let_def split: option.split)

text \<open>Notices are only ever added to, and never read.\<close>

lemma note_that_twice: "note_that ns (note_that ms p) = note_that (ms @ ns) p"
  by (simp add: note_that_def)

lemma notice_upd:
  "(note_that ns p)\<lparr>cfg := c\<rparr> = note_that ns (p\<lparr>cfg := c\<rparr>)"
  "(note_that ns p)\<lparr>default_title := t\<rparr> = note_that ns (p\<lparr>default_title := t\<rparr>)"
  "set_target g (note_that ns p) = note_that ns (set_target g p)"
  by (simp_all add: note_that_def set_target_def)

definition same_parse :: "parser \<Rightarrow> parser \<Rightarrow> bool" where
  "same_parse p q \<longleftrightarrow> cfg p = cfg q \<and> default_title p = default_title q"

lemma same_parse_step: "same_parse p q \<Longrightarrow> same_parse (line_step conv l p) (line_step conv l q)"
  by (auto simp: same_parse_def line_step_def Let_def directive_step_def entry_directive_def
      set_target_def split: prod.split option.split target.split)

lemma same_parse_fold:
  "same_parse p q \<Longrightarrow> same_parse (fold (line_step conv) ls p) (fold (line_step conv) ls q)"
  by (induction ls arbitrary: p q) (simp_all add: same_parse_step)

lemma same_parse_finish: "same_parse p q \<Longrightarrow> fst (finish p) = fst (finish q)"
  by (auto simp: same_parse_def finish_def Let_def split: option.split)

lemma skip_line:
  assumes "\<And>p. same_parse (line_step conv l p) p"
  shows "fst (parse_lines conv (ls1 @ l # ls2)) = fst (parse_lines conv (ls1 @ ls2))"
  unfolding parse_lines_def
  by (rule same_parse_finish) (simp add: same_parse_fold assms)

definition directives :: "ustr list" where
  "directives = map lit [''timeout'', ''autodetect'', ''default'', ''entry'', ''multiboot'', ''modules'',
     ''chainload'', ''linux'', ''initrd'', ''options'']"

text \<open>A line that says nothing: only a comment, or a directive that is none of the ten.\<close>

definition says_nothing :: "ustr \<Rightarrow> bool" where
  "says_nothing l \<longleftrightarrow> clean_line l = [] \<or> fst (split (clean_line l)) \<notin> set directives"

lemma says_nothing_step:
  assumes "says_nothing l"
  shows "same_parse (line_step conv l p) p"
proof (cases "clean_line l = []")
  case True
  then show ?thesis by (simp add: line_step_def same_parse_def)
next
  case False
  obtain d a where s: "split (clean_line l) = (d, a)" by force
  with False assms have "d \<notin> set directives" by (simp add: says_nothing_def)
  then have k: "d \<noteq> lit ''timeout''" "d \<noteq> lit ''autodetect''" "d \<noteq> lit ''default''" "d \<noteq> lit ''entry''"
    "d \<noteq> lit ''multiboot''" "d \<noteq> lit ''modules''" "d \<noteq> lit ''chainload''" "d \<noteq> lit ''linux''"
    "d \<noteq> lit ''initrd''" "d \<noteq> lit ''options''"
    by (auto simp: directives_def)
  obtain po ns where pa: "path conv a = (po, ns)" by force
  have "line_step conv l p = directive_step conv d a p"
    using False s by (simp add: line_step_def Let_def)
  also have "\<dots> = note_that [if entries (cfg p) = [] then BeforeAnyEntry d else Ignoring d] p"
    using k pa by (simp add: directive_step_def entry_directive_def Let_def)
  finally show ?thesis by (simp add: same_parse_def)
qed

section \<open>Printing a configuration\<close>

definition line_of :: "string \<Rightarrow> ustr \<Rightarrow> ustr" where
  "line_of d arg = lit d @ 32 # arg"

definition print_option :: "string \<Rightarrow> ustr option \<Rightarrow> ustr list" where
  "print_option d ao = (case ao of None \<Rightarrow> [] | Some a \<Rightarrow> [line_of d a])"

fun print_target :: "(cstr16 \<Rightarrow> ustr) \<Rightarrow> target \<Rightarrow> ustr list" where
  "print_target txt (Multiboot k m) = line_of ''multiboot'' (txt k) # print_option ''modules'' (map_option txt m)"
| "print_target txt (Chainload q d) = [line_of ''chainload'' (txt q)]"
| "print_target txt (Linux k i c) = line_of ''linux'' (txt k) # print_option ''initrd'' (map_option txt i) @
     [line_of ''options'' c]"

definition print_entry :: "(cstr16 \<Rightarrow> ustr) \<Rightarrow> entry \<Rightarrow> ustr list" where
  "print_entry txt e = line_of ''entry'' (title e) # print_target txt (target e)"

definition print_config :: "(cstr16 \<Rightarrow> ustr) \<Rightarrow> config \<Rightarrow> ustr list" where
  "print_config txt c =
     [line_of ''timeout'' (decimal (unat (timeout c))),
      line_of ''autodetect'' (if autodetect c then lit ''on'' else lit ''off''),
      line_of ''default'' (decimal (default_entry c))] @ concat (map (print_entry txt) (entries c))"

text \<open>What can be written down: text without line breaks, comment signs or white space at its ends.\<close>

definition clean :: "ustr \<Rightarrow> bool" where
  "clean s \<longleftrightarrow> trimmed s \<and> 35 \<notin> set s \<and> 10 \<notin> set s"

definition path_ok :: "(ustr \<Rightarrow> cstr16 option) \<Rightarrow> (cstr16 \<Rightarrow> ustr) \<Rightarrow> cstr16 \<Rightarrow> bool" where
  "path_ok conv txt q \<longleftrightarrow> clean (txt q) \<and> conv (txt q) = Some q"

fun printable_target :: "(ustr \<Rightarrow> cstr16 option) \<Rightarrow> (cstr16 \<Rightarrow> ustr) \<Rightarrow> target \<Rightarrow> bool" where
  "printable_target conv txt (Multiboot k m) \<longleftrightarrow> k \<noteq> [] \<and> path_ok conv txt k \<and> pred_option (path_ok conv txt) m"
| "printable_target conv txt (Chainload q d) \<longleftrightarrow> path_ok conv txt q \<and> d = None"
| "printable_target conv txt (Linux k i c) \<longleftrightarrow> path_ok conv txt k \<and> pred_option (path_ok conv txt) i \<and> clean c"

definition printable :: "(ustr \<Rightarrow> cstr16 option) \<Rightarrow> (cstr16 \<Rightarrow> ustr) \<Rightarrow> config \<Rightarrow> bool" where
  "printable conv txt c \<longleftrightarrow>
     (\<forall>e \<in> set (entries c). clean (title e) \<and> printable_target conv txt (target e)) \<and>
     default_entry c < 2 ^ 64 \<and>
     (if entries c = [] then default_entry c = 0 else default_entry c < length (entries c))"

text \<open>Directives are words.\<close>

definition word :: "ustr \<Rightarrow> bool" where
  "word d \<longleftrightarrow> d \<noteq> [] \<and> (\<forall>c \<in> set d. \<not> is_whitespace c \<and> c \<noteq> 35 \<and> c \<noteq> 10)"

lemma directives_words: "\<forall>d \<in> set directives. word d"
  by (simp add: directives_def word_def lit_def is_whitespace_def)

lemma split_line_of:
  assumes "word d" and "clean arg"
  shows "clean_line (d @ 32 # arg) = (if arg = [] then d else d @ 32 # arg)"
    and "split (clean_line (d @ 32 # arg)) = (d, arg)"
proof -
  have d: "trimmed d" "takeWhile (\<lambda>c. c \<noteq> 35) (d @ 32 # arg) = d @ 32 # arg"
    using assms by (auto simp: trimmed_def word_def clean_def takeWhile_append2 takeWhile_eq_all_conv)
  have w: "is_whitespace 32" by (simp add: is_whitespace_def)
  have "trim_start (d @ [32]) = d @ [32]"
    using assms(1) by (intro trim_start_id) (cases d; simp add: word_def)
  moreover have "trim_end (d @ [32]) = trim_end d" using w by (simp add: trim_end_def)
  moreover have "trim_end d = d" using d(1) by (auto simp: trimmed_def trim_end_id)
  ultimately have e: "trim (d @ [32]) = d" by (simp add: trim_def)
  have t: "trimmed (d @ 32 # arg)" if "arg \<noteq> []"
    using that assms by (auto simp: trimmed_def word_def clean_def)
  show l: "clean_line (d @ 32 # arg) = (if arg = [] then d else d @ 32 # arg)"
    unfolding clean_line_def d(2) using t e by auto
  have nw: "\<forall>c \<in> set d. \<not> is_whitespace c" using assms(1) by (simp add: word_def)
  have nil: "trim [] = []" by (simp add: trim_def trim_start_def trim_end_def)
  show "split (clean_line (d @ 32 # arg)) = (d, arg)"
  proof (cases "arg = []")
    case True
    have tw: "takeWhile (\<lambda>c. \<not> is_whitespace c) d = d"
      and dw: "dropWhile (\<lambda>c. \<not> is_whitespace c) d = []"
      using nw by (auto simp: takeWhile_eq_all_conv)
    have "split d = (d, [])" unfolding split_def Let_def trim_trimmed [OF d(1)] tw dw nil ..
    with True show ?thesis unfolding l by simp
  next
    case False
    have "takeWhile (\<lambda>c. \<not> is_whitespace c) (d @ 32 # arg) = d"
      "dropWhile (\<lambda>c. \<not> is_whitespace c) (d @ 32 # arg) = 32 # arg"
      using nw w by (auto simp: takeWhile_append2 dropWhile_append2)
    moreover have "trim (32 # arg) = arg"
      using trim_pad_left [of "[32]" arg] w assms(2) by (simp add: clean_def)
    ultimately show ?thesis unfolding l using False t by (simp add: split_def Let_def)
  qed
qed

lemma line_step_line_of:
  assumes "lit d \<in> set directives" and "clean arg"
  shows "line_step conv (line_of d arg) p = directive_step conv (lit d) arg p"
proof -
  have w: "word (lit d)" using assms(1) directives_words by blast
  then have "clean_line (lit d @ 32 # arg) \<noteq> []"
    using split_line_of(1) [OF w assms(2)] by (auto simp: word_def)
  then show ?thesis
    using split_line_of(2) [OF w assms(2)] by (simp add: line_step_def line_of_def Let_def)
qed

text \<open>Such a line is one line.\<close>

definition good_line :: "ustr \<Rightarrow> bool" where
  "good_line l \<longleftrightarrow> 10 \<notin> set l \<and> (l = [] \<or> last l \<noteq> 13)"

lemma good_line_of:
  assumes "lit d \<in> set directives" and "clean arg"
  shows "good_line (line_of d arg)"
proof -
  have w: "word (lit d)" using assms(1) directives_words by blast
  have "last (32 # arg) \<noteq> 13"
  proof (cases "arg = []")
    case False
    with assms(2) have "\<not> is_whitespace (last arg)" by (simp add: clean_def trimmed_def)
    with False show ?thesis by (auto simp: is_whitespace_def)
  qed simp
  moreover have "10 \<notin> set (line_of d arg)"
    using w assms(2) by (auto simp: line_of_def word_def clean_def)
  ultimately show ?thesis by (simp add: good_line_def line_of_def)
qed

lemma directives_in [simp]:
  "lit ''timeout'' \<in> set directives" "lit ''autodetect'' \<in> set directives" "lit ''default'' \<in> set directives"
  "lit ''entry'' \<in> set directives" "lit ''multiboot'' \<in> set directives" "lit ''modules'' \<in> set directives"
  "lit ''chainload'' \<in> set directives" "lit ''linux'' \<in> set directives" "lit ''initrd'' \<in> set directives"
  "lit ''options'' \<in> set directives"
  by (simp_all add: directives_def)

lemmas parse_steps = line_step_line_of directive_step_def entry_directive_def set_target_def path_def
  note_that_def print_option_def path_ok_def

lemma line_step_print_entry:
  assumes "clean (title e)" and "printable_target conv txt (target e)"
  shows "fold (line_step conv) (print_entry txt e) p = p\<lparr>cfg := (cfg p)\<lparr>entries := entries (cfg p) @ [e]\<rparr>\<rparr>"
proof (cases "target e")
  case (Multiboot k m)
  with assms show ?thesis
    by (cases m) (simp_all add: print_entry_def parse_steps)
next
  case (Chainload q d)
  with assms show ?thesis by (simp add: print_entry_def parse_steps)
next
  case (Linux k i c)
  with assms show ?thesis
    by (cases i) (simp_all add: print_entry_def parse_steps)
qed

lemma fold_print_entries:
  assumes "\<forall>e \<in> set es. clean (title e) \<and> printable_target conv txt (target e)"
  shows "fold (line_step conv) (concat (map (print_entry txt) es)) p =
    p\<lparr>cfg := (cfg p)\<lparr>entries := entries (cfg p) @ es\<rparr>\<rparr>"
  using assms by (induction es arbitrary: p) (simp_all add: line_step_print_entry)

lemma clean_decimal: "clean (decimal n)"
  using decimal_digits [of n] by (auto simp: clean_def trimmed_decimal)

lemma clean_on_off: "clean (lit ''on'')" "clean (lit ''off'')"
  by (simp_all add: clean_def trimmed_def lit_def is_whitespace_def)

lemma printable_bootable: "printable_target conv txt (target e) \<Longrightarrow> bootable e"
  by (cases "target e") (simp_all add: bootable_def)

lemma print_target_lines:
  assumes "printable_target conv txt t"
  shows "\<forall>l \<in> set (print_target txt t). good_line l"
proof (cases t)
  case (Multiboot k m)
  with assms show ?thesis by (cases m) (simp_all add: print_option_def path_ok_def good_line_of)
next
  case (Chainload q d)
  with assms show ?thesis by (simp add: path_ok_def good_line_of)
next
  case (Linux k i c)
  with assms show ?thesis by (cases i) (simp_all add: print_option_def path_ok_def good_line_of)
qed

lemma print_config_lines:
  assumes "printable conv txt c"
  shows "\<forall>l \<in> set (print_config txt c). good_line l"
proof -
  have "\<forall>l \<in> set (print_entry txt e). good_line l" if "e \<in> set (entries c)" for e
    using assms that print_target_lines [of conv "txt" "target e"]
    by (auto simp: printable_def print_entry_def good_line_of)
  then show ?thesis by (auto simp: print_config_def good_line_of clean_decimal clean_on_off)
qed

lemma parse_print_config:
  assumes "printable conv txt c"
  shows "parse_lines conv (print_config txt c) = (c, [])"
proof -
  let ?es = "entries c"
  have es: "\<forall>e \<in> set ?es. clean (title e) \<and> printable_target conv txt (target e)"
    and d: "default_entry c < 2 ^ 64" using assms by (simp_all add: printable_def)
  have "filter bootable ?es = ?es"
    using es by (auto simp: filter_id_conv printable_bootable)
  moreover have "of_nat (unat (timeout c)) = timeout c" by simp
  moreover have "parse_u64 (decimal (unat (timeout c))) = Some (unat (timeout c))"
    using unat_u64_bound by (rule parse_u64_decimal)
  moreover have "parse_u64 (decimal (default_entry c)) = Some (default_entry c)"
    using d by (rule parse_u64_decimal)
  moreover have "fold (line_step conv) (print_config txt c) initial_parser =
      \<lparr>cfg = c, default_title = None, notices = []\<rparr>"
    using calculation clean_decimal clean_on_off
    by (simp add: print_config_def fold_print_entries [OF es] parse_steps initial_parser_def off_words_def)
  ultimately show ?thesis
    using assms by (cases c) (auto simp: parse_lines_def finish_def Let_def printable_def split: if_splits)
qed

section \<open>What the parser promises\<close>


text \<open>
  C12: the round trip. A configuration whose titles, paths and command lines can be written on a line
  is read back from its printed form exactly, and without a notice.
\<close>

theorem parse_print_roundtrip:
  assumes "printable conv txt c"
  shows "parse conv (unlines (print_config txt c)) = (c, [])"
proof -
  have "str_lines (unlines (print_config txt c)) = print_config txt c"
    using print_config_lines [OF assms] by (intro str_lines_unlines) (simp add: good_line_def)
  with parse_print_config [OF assms] show ?thesis by (simp add: parse_def)
qed

text \<open>The conversions of the example firmware, on a Linux entry and the built-in one.\<close>

definition demo_config :: config where
  "demo_config = builtin\<lparr>timeout := 7, default_entry := 1, entries := entries builtin @
     [\<lparr>title = lit ''Fedora'', target = Linux (lit16 ''v'') (Some (lit16 ''i'')) (lit ''ro quiet'')\<rparr>]\<rparr>"

theorem parse_print_roundtrip_witness:
  "parse (cstr16_of demo_fw) (unlines (print_config (map unat) demo_config)) = (demo_config, [])"
proof (rule parse_print_roundtrip)
  show "printable (cstr16_of demo_fw) (map unat) demo_config"
    by (simp add: printable_def demo_config_def builtin_def path_ok_def clean_def trimmed_def demo_fw_def
        lit_def is_whitespace_def)
qed

text \<open>
  C27: a bad line costs nothing but itself. Taking out of a file any line that is blank, a comment,
  or starts with a word that is no directive leaves the configuration as it was.
\<close>

theorem parse_skips_unrecognised:
  assumes "says_nothing l"
  shows "fst (parse_lines conv (ls1 @ l # ls2)) = fst (parse_lines conv (ls1 @ ls2))"
  by (rule skip_line) (rule says_nothing_step [OF assms])

theorem parse_skips_unrecognised_witness:
  "fst (parse_lines (cstr16_of demo_fw) [lit ''entry A'', lit ''frobnicate 3'', lit ''linux k'']) =
   fst (parse_lines (cstr16_of demo_fw) [lit ''entry A'', lit ''linux k''])"
proof -
  have "clean_line (lit ''frobnicate 3'') = lit ''frobnicate 3''"
    by (simp add: clean_line_def lit_def trim_def trim_start_def trim_end_def is_whitespace_def)
  moreover have "fst (split (lit ''frobnicate 3'')) = lit ''frobnicate''"
    by (simp add: split_def Let_def lit_def trim_def trim_start_def trim_end_def is_whitespace_def)
  ultimately have "says_nothing (lit ''frobnicate 3'')"
    by (simp add: says_nothing_def directives_def)
  from parse_skips_unrecognised [OF this, of "cstr16_of demo_fw" "[lit ''entry A'']" "[lit ''linux k'']"]
  show ?thesis by simp
qed

text \<open>A line that is not a \<open>default\<close> directive leaves the title asked for alone.\<close>

definition no_default :: "ustr \<Rightarrow> bool" where
  "no_default l \<longleftrightarrow> clean_line l = [] \<or> fst (split (clean_line l)) \<noteq> lit ''default''"

lemma no_default_step: "no_default l \<Longrightarrow> default_title (line_step conv l p) = default_title p"
  by (auto simp: no_default_def line_step_def Let_def directive_step_def entry_directive_def
      split: prod.split option.split target.split)

lemma no_default_fold:
  "\<forall>l \<in> set ls. no_default l \<Longrightarrow> default_title (fold (line_step conv) ls p) = default_title p"
  by (induction ls arbitrary: p) (simp_all add: no_default_step)

text \<open>
  C26: a default given by title is the first entry kept that has this title, wherever in the file
  that entry is; without one it is the entry last asked for by number, or the first.
\<close>

theorem parse_default_by_title:
  assumes "clean t" and "parse_u64 t = None" and "\<forall>l \<in> set ls2. no_default l"
    and "c = fst (parse_lines conv (ls1 @ line_of ''default'' t # ls2))"
    and "e \<in> set (entries c)" and "title e = t"
  shows "default_entry c < length (entries c) \<and> title (entries c ! default_entry c) = t \<and>
    (\<forall>j < default_entry c. title (entries c ! j) \<noteq> t)"
proof -
  define p where "p = fold (line_step conv) (ls1 @ line_of ''default'' t # ls2) initial_parser"
  have "line_step conv (line_of ''default'' t) q = q\<lparr>default_title := Some t\<rparr>" for q
    using assms(1,2) by (simp add: line_step_line_of directive_step_def)
  then have t: "default_title p = Some t"
    using no_default_fold [OF assms(3)] by (simp add: p_def)
  have c: "c = fst (finish p)" using assms(4) by (simp add: parse_lines_def p_def)
  then have es: "entries c = filter bootable (entries (cfg p))" by (simp add: finish_entries)
  have "position (\<lambda>e. title e = t) (entries c) \<noteq> None"
    using assms(5,6) by (simp only: position_None) blast
  then obtain i where i: "position (\<lambda>e. title e = t) (entries c) = Some i" by blast
  note pos = position_Some [OF i]
  have "default_entry c = i"
    using i pos t es finish_default [of p] by (simp add: c Let_def)
  with pos show ?thesis by simp
qed

theorem parse_default_by_title_witness:
  "default_entry (fst (parse_lines (\<lambda>s. Some (map of_nat s))
     [line_of ''default'' (lit ''B''), line_of ''entry'' (lit ''A''), line_of ''linux'' (lit ''k''),
      line_of ''entry'' (lit ''B''), line_of ''linux'' (lit ''k'')])) = 1"
proof -
  define ls2 where "ls2 = [line_of ''entry'' (lit ''A''), line_of ''linux'' (lit ''k''),
      line_of ''entry'' (lit ''B''), line_of ''linux'' (lit ''k'')]"
  let ?conv = "\<lambda>s. Some (map of_nat s) :: cstr16 option"
  define c where "c = fst (parse_lines ?conv ([] @ line_of ''default'' (lit ''B'') # ls2))"
  have cl: "clean (lit ''A'')" "clean (lit ''B'')" "clean (lit ''k'')"
    by (simp_all add: clean_def trimmed_def lit_def is_whitespace_def)
  have nb: "parse_u64 (lit ''B'') = None" by (simp add: parse_u64_def lit_def to_digit10_def)
  have nd: "no_default (line_of d a)" if "lit d \<in> set directives" "clean a" "d \<noteq> ''default''" for d a
    using that split_line_of(2) [of "lit d" a] directives_words by (simp add: no_default_def line_of_def)
  have es: "entries c = [\<lparr>title = lit ''A'', target = Linux (map of_nat (lit ''k'')) None []\<rparr>,
      \<lparr>title = lit ''B'', target = Linux (map of_nat (lit ''k'')) None []\<rparr>]"
    using cl nb by (simp add: c_def ls2_def parse_lines_def finish_entries parse_steps initial_parser_def bootable_def)
  have "default_entry c < length (entries c) \<and> title (entries c ! default_entry c) = lit ''B'' \<and>
      (\<forall>j < default_entry c. title (entries c ! j) \<noteq> lit ''B'')"
  proof (rule parse_default_by_title [OF cl(2) nb _ c_def])
    show "\<forall>l \<in> set ls2. no_default l" by (simp add: ls2_def nd cl)
    show "\<lparr>title = lit ''B'', target = Linux (map of_nat (lit ''k'')) None []\<rparr> \<in> set (entries c)"
      by (simp add: es)
  qed simp
  then have "default_entry c = 1"
    by (auto simp: es less_Suc_eq numeral_2_eq_2)
  then show ?thesis by (simp add: c_def ls2_def)
qed

text \<open>
  \<open>load\<close> gives a configuration only for a file of at most 64 KiB that is read and is UTF-8, and
  it is then what \<open>parse\<close> makes of the text; every failure is the absence of one.
\<close>

lemma load_is_parse:
  "fst (load F f) = Some r \<longleftrightarrow> (\<exists>fs f1 root f2 h f3 fh f4 len f5 bs f6 text.
     get_image_file_system F f = (Some fs, f1) \<and> open_volume F fs f1 = (Some root, f2) \<and>
     dir_open F root (lit16 [CHR 0x5C] @ lit16 ''bang.cfg'') f2 = (Some h, f3) \<and>
     into_regular_file F h f3 = (Some fh, f4) \<and> get_file_size F fh f4 = (Some len, f5) \<and>
     0 < len \<and> len \<le> 64 * 1024 \<and> file_read F fh (unat len) f5 = (Some bs, f6) \<and>
     utf8_decode bs = Some text \<and> r = parse (cstr16_of F) text)"
  unfolding load_def
  by (auto split: prod.splits option.splits if_splits simp: word_neq_0_conv not_less simp del: lit16_Cons)

section \<open>How long a command line can get\<close>

lemma length_trim: "length (trim s) \<le> length s"
proof -
  have "length (trim_end s) \<le> length s" for s
    using length_dropWhile_le [of is_whitespace "rev s"] by (simp add: trim_end_def)
  then show ?thesis
    unfolding trim_def trim_start_def by (metis length_dropWhile_le order_trans)
qed

lemma length_clean_line: "length (clean_line raw) \<le> length raw"
  unfolding clean_line_def by (rule order_trans [OF length_trim length_takeWhile_le])

lemma length_split_arg: "length (snd (split l)) \<le> length l"
proof -
  have "length (trim (dropWhile (\<lambda>c. \<not> is_whitespace c) (trim l))) \<le> length l"
    by (rule order_trans [OF length_trim order_trans [OF length_dropWhile_le length_trim]])
  then show ?thesis by (simp add: split_def Let_def)
qed

lemma length_split_inclusive: "l \<in> set (split_inclusive c s) \<Longrightarrow> length l \<le> length s"
  by (induction c s arbitrary: l rule: split_inclusive.induct) (fastforce split: if_splits list.splits)+

lemma length_strip_eol: "length (strip_eol l) \<le> length l"
  by (auto simp: strip_eol_def strip_suffix_def split: option.splits if_splits)

lemma length_str_lines: "l \<in> set (str_lines s) \<Longrightarrow> length l \<le> length s"
  by (auto simp: str_lines_def intro: order_trans [OF length_strip_eol length_split_inclusive])

lemma length_utf8_decode: "utf8_decode bs = Some s \<Longrightarrow> length s \<le> length bs"
proof (induction bs arbitrary: s rule: utf8_decode.induct)
  case (2 a bs)
  then show ?case by (auto simp: Let_def split: if_splits list.splits) fastforce+
qed simp

lemma str_len_le: "str_len s \<le> 4 * length s"
  by (induction s) (auto simp: str_len_def utf8_encode_def utf8_char_def)

definition options_le :: "nat \<Rightarrow> entry list \<Rightarrow> bool" where
  "options_le n es \<longleftrightarrow> (\<forall>e \<in> set es. \<forall>k i c. target e = Linux k i c \<longrightarrow> length c \<le> n)"

lemma set_target_options:
  "options_le n (entries (cfg p)) \<Longrightarrow> (\<And>k i c. t = Linux k i c \<Longrightarrow> length c \<le> n) \<Longrightarrow>
   options_le n (entries (cfg (set_target t p)))"
  by (auto simp: options_le_def dest: in_set_butlastD)

lemma entry_directive_options:
  assumes "options_le n (entries (cfg p))" and "entries (cfg p) \<noteq> []" and "length a \<le> n"
  shows "options_le n (entries (cfg (entry_directive conv d a p)))"
proof -
  have "target (last (entries (cfg p))) = Linux k i c \<Longrightarrow> length c \<le> n" for k i c
    using assms(1) last_in_set [OF assms(2)] unfolding options_le_def by blast
  with assms(1,3) show ?thesis
    by (auto simp: entry_directive_def Let_def intro!: set_target_options simp del: set_target_simps(1)
        split: target.split option.split prod.split)
qed

lemma line_step_options:
  assumes "options_le n (entries (cfg p))" and "length l \<le> n"
  shows "options_le n (entries (cfg (line_step conv l p)))"
proof -
  have "length (snd (split (clean_line l))) \<le> n"
    by (rule order_trans [OF length_split_arg order_trans [OF length_clean_line assms(2)]])
  then show ?thesis
    using assms(1) entry_directive_options [of n p]
    by (auto simp: line_step_def Let_def directive_step_def options_le_def split: prod.split option.split)
qed

lemma fold_line_step_options:
  "\<forall>l \<in> set ls. length l \<le> n \<Longrightarrow> options_le n (entries (cfg p)) \<Longrightarrow>
   options_le n (entries (cfg (fold (line_step conv) ls p)))"
  by (induction ls arbitrary: p) (simp_all add: line_step_options)

lemma parse_options: "options_le (length s) (entries (fst (parse conv s)))"
proof -
  have "options_le (length s) (entries (cfg (fold (line_step conv) (str_lines s) initial_parser)))"
    by (rule fold_line_step_options) (auto simp: length_str_lines initial_parser_def options_le_def)
  then show ?thesis by (auto simp: parse_def parse_lines_def finish_entries options_le_def)
qed

text \<open>A configuration file has at most 64 KiB, so no command line has more characters than that.\<close>

lemma load_options:
  assumes "\<And>h n f bs. fst (file_read F h n f) = Some bs \<Longrightarrow> length bs \<le> n"
    and "fst (load F f) = Some (c, ns)" and "e \<in> set (entries c)" and "target e = Linux k i cmd"
  shows "str_len cmd \<le> 4 * (64 * 1024)"
proof -
  obtain fh and len :: u64 and f5 bs f6 s where len: "len \<le> 64 * 1024" and rd: "file_read F fh (unat len) f5 = (Some bs, f6)"
    and d: "utf8_decode bs = Some s" and c: "(c, ns) = parse (cstr16_of F) s"
    using assms(2) unfolding load_is_parse by (elim exE conjE) (rule that)
  have "length bs \<le> unat len" using assms(1) [of fh "unat len" f5 bs] rd by simp
  moreover have "unat len \<le> 64 * 1024" using len by (simp add: word_le_nat_alt)
  moreover have "length cmd \<le> length s"
    using parse_options [of s "cstr16_of F"] assms(3,4) c [symmetric] by (auto simp: options_le_def)
  ultimately have "length cmd \<le> 64 * 1024" using length_utf8_decode [OF d] by linarith
  with str_len_le [of cmd] show ?thesis by linarith
qed

end
