(* ===== verification/Menu.thy ===== *)
theory Menu
  imports Config
begin

text \<open>
  \<open>menu.rs\<close>: choosing an entry. The loop that polls the keyboard, counts down and redraws is the
  code's; beside it stands the machine that it amounts to, which only sees the keys.
\<close>

section \<open>The screen\<close>

record layout =
  origin :: nat
  cols :: nat
  n_entries :: nat

definition title_row :: "layout \<Rightarrow> nat" where
  "title_row l = origin l"

definition entry_row :: "layout \<Rightarrow> nat \<Rightarrow> nat" where
  "entry_row l i = origin l + 2 + i"

definition hint_row :: "layout \<Rightarrow> nat" where
  "hint_row l = origin l + 3 + n_entries l"

definition status_row :: "layout \<Rightarrow> nat" where
  "status_row l = origin l + 4 + n_entries l"

definition height :: "layout \<Rightarrow> nat" where
  "height l = 5 + n_entries l"

text \<open>The text a row is given: cut to one column less than the screen, and padded to that.\<close>

definition line_text :: "layout \<Rightarrow> ustr \<Rightarrow> ustr" where
  "line_text l s = (let width = cols l - 1; t = take width s in t @ replicate (width - length t) 32)"

definition line :: "'f firmware \<Rightarrow> layout \<Rightarrow> nat \<Rightarrow> ustr \<Rightarrow> 'f \<Rightarrow> 'f" where
  "line F l row s f = print_str F (line_text l s) (snd (set_cursor_position F 0 row f))"

definition println :: "'f firmware \<Rightarrow> ustr \<Rightarrow> 'f \<Rightarrow> 'f" where
  "println F s f = print_str F (s @ [10]) f"

definition plan :: "'f firmware \<Rightarrow> nat \<Rightarrow> 'f \<Rightarrow> layout option \<times> 'f" where
  "plan F n f =
     (case current_mode F f of
        (None, f) \<Rightarrow> (None, f)
      | (Some (c, rows), f) \<Rightarrow>
          (case cursor_row F f of (o', f) \<Rightarrow>
             let l = \<lparr>origin = o', cols = c, n_entries = n\<rparr>
             in if c < 20 \<or> rows < o' + height l then (None, f)
                else (case set_cursor_position F 0 o' f of
                        (True, f) \<Rightarrow> (Some l, f)
                      | (False, f) \<Rightarrow> (None, f))))"

text \<open>
  \<open>push_num\<close>: the digits, least significant first, into an array of twenty; writing past its end
  would be a panic, which is \<open>None\<close>.
\<close>

function num_digits :: "nat \<Rightarrow> ustr \<Rightarrow> nat \<Rightarrow> (ustr \<times> nat) option" where
  "num_digits n digits len =
     (if 0 < n then
        (if len < length digits then num_digits (n div 10) (digits[len := 48 + n mod 10]) (len + 1) else None)
      else Some (digits, len))"
  by pat_completeness auto
termination by (relation "measure fst") auto

declare num_digits.simps [simp del]

fun push_digits :: "ustr \<Rightarrow> ustr \<Rightarrow> nat \<Rightarrow> ustr" where
  "push_digits s digits 0 = s"
| "push_digits s digits (Suc len) = push_digits (s @ [digits ! len]) digits len"

definition push_num :: "ustr \<Rightarrow> nat \<Rightarrow> ustr option" where
  "push_num s n =
     (if n = 0 then Some (s @ [48])
      else case num_digits n (replicate 20 0) 0 of
             None \<Rightarrow> None
           | Some (digits, len) \<Rightarrow> Some (push_digits s digits len))"

definition entry_text :: "config \<Rightarrow> nat \<Rightarrow> nat \<Rightarrow> ustr" where
  "entry_text c selected i =
     (let mark = (if i = selected then 62 else 32)
      in the (push_num (lit ''     '' @ [mark, 32]) (i + 1)) @ lit ''. '' @ title (entries c ! i))"

definition draw_entries :: "'f firmware \<Rightarrow> layout \<Rightarrow> config \<Rightarrow> nat \<Rightarrow> 'f \<Rightarrow> 'f" where
  "draw_entries F l c selected f =
     fold (\<lambda>i. line F l (entry_row l i) (entry_text c selected i)) [0..<length (entries c)] f"

definition SELECT :: ustr where
  "SELECT = lit ''    Select what to boot:''"

definition HINT :: ustr where
  "HINT = lit ''    up/down to move, a number to pick, enter to boot''"

definition CANCELLED :: ustr where
  "CANCELLED = lit ''    (countdown cancelled)''"

definition draw :: "'f firmware \<Rightarrow> layout \<Rightarrow> config \<Rightarrow> nat \<Rightarrow> 'f \<Rightarrow> 'f" where
  "draw F l c selected f =
     (let f = line F l (title_row l) SELECT f;
          f = line F l (title_row l + 1) [] f;
          f = draw_entries F l c selected f;
          f = line F l (entry_row l (length (entries c))) [] f;
          f = line F l (hint_row l) HINT f
      in line F l (status_row l) [] f)"

definition countdown_text :: "config \<Rightarrow> nat \<Rightarrow> u64 \<Rightarrow> ustr" where
  "countdown_text c selected remaining =
     the (push_num (lit ''    booting \"'' @ title (entries c ! selected) @ lit ''\" in '') (unat remaining)) @
     lit ''s ...''"

definition countdown :: "'f firmware \<Rightarrow> layout \<Rightarrow> config \<Rightarrow> nat \<Rightarrow> u64 \<Rightarrow> 'f \<Rightarrow> 'f" where
  "countdown F l c selected remaining f = line F l (status_row l) (countdown_text c selected remaining) f"

definition render_scrolling :: "'f firmware \<Rightarrow> config \<Rightarrow> nat \<Rightarrow> 'f \<Rightarrow> 'f" where
  "render_scrolling F c selected f =
     (let f = println F [] f;
          f = println F SELECT f;
          f = println F [] f;
          f = fold (\<lambda>i. println F (lit ''     '' @ [if i = selected then 62 else 32, 32] @ decimal (i + 1) @
                lit ''. '' @ title (entries c ! i))) [0..<length (entries c)] f;
          f = println F [] f
      in println F HINT f)"

section \<open>The loop\<close>

record menu =
  selected :: nat
  remaining :: u64
  counting :: bool
  ticks :: u64

definition show_entries :: "'f firmware \<Rightarrow> layout option \<Rightarrow> config \<Rightarrow> nat \<Rightarrow> 'f \<Rightarrow> 'f" where
  "show_entries F lo c sel f =
     (case lo of Some l \<Rightarrow> draw_entries F l c sel f | None \<Rightarrow> render_scrolling F c sel f)"

definition show_cancelled :: "'f firmware \<Rightarrow> layout option \<Rightarrow> 'f \<Rightarrow> 'f" where
  "show_cancelled F lo f = (case lo of Some l \<Rightarrow> line F l (status_row l) CANCELLED f | None \<Rightarrow> println F CANCELLED f)"

definition show_countdown :: "'f firmware \<Rightarrow> layout option \<Rightarrow> config \<Rightarrow> nat \<Rightarrow> u64 \<Rightarrow> 'f \<Rightarrow> 'f" where
  "show_countdown F lo c sel left f =
     (case lo of Some l \<Rightarrow> countdown F l c sel left f | None \<Rightarrow> println F (countdown_text c sel left) f)"

text \<open>\<open>match key\<close>: an entry to boot, or the selection there is now.\<close>

definition key_effect :: "'f firmware \<Rightarrow> layout option \<Rightarrow> config \<Rightarrow> key \<Rightarrow> nat \<Rightarrow> 'f \<Rightarrow> (nat + nat) \<times> 'f" where
  "key_effect F lo c k sel f =
     (case k of
        KeySpecial ScanUp \<Rightarrow>
          (let sel = (if sel = 0 then length (entries c) - 1 else sel - 1)
           in (Inr sel, show_entries F lo c sel f))
      | KeySpecial ScanDown \<Rightarrow>
          (let sel = (sel + 1) mod length (entries c) in (Inr sel, show_entries F lo c sel f))
      | KeyPrintable ch \<Rightarrow>
          if unat ch = 13 \<or> unat ch = 10 then (Inl sel, f)
          else (case to_digit10 (unat ch) of
                  Some d \<Rightarrow> if 1 \<le> d \<and> d \<le> length (entries c) then (Inl (d - 1), f) else (Inr sel, f)
                | None \<Rightarrow> (Inr sel, f))
      | _ \<Rightarrow> (Inr sel, f))"

text \<open>\<open>if counting { ... }\<close>: booting, or the counters and the screen there are now.\<close>

definition tick_effect :: "'f firmware \<Rightarrow> layout option \<Rightarrow> config \<Rightarrow> menu \<Rightarrow> 'f \<Rightarrow> (nat + menu) \<times> 'f" where
  "tick_effect F lo c m f =
     (if counting m then
        let m = m\<lparr>ticks := ticks m + 1\<rparr>
        in if ticks m mod 10 = 0 then
             let m = m\<lparr>remaining := remaining m - 1\<rparr>
             in if remaining m = 0 then (Inl (selected m), f)
                else (Inr m, show_countdown F lo c (selected m) (remaining m) f)
           else (Inr m, f)
      else (Inr m, f))"

partial_function (option) choose_loop ::
    "'f firmware \<Rightarrow> layout option \<Rightarrow> config \<Rightarrow> menu \<Rightarrow> 'f \<Rightarrow> (nat \<times> 'f) option" where
  "choose_loop F lo c m f =
     (case read_key F f of
        (Some k, f) \<Rightarrow>
          (let f = (if counting m then show_cancelled F lo f else f);
               m = m\<lparr>counting := False\<rparr>
           in case key_effect F lo c k (selected m) f of
                (Inl i, f) \<Rightarrow> Some (i, f)
              | (Inr sel, f) \<Rightarrow>
                  (case tick_effect F lo c (m\<lparr>selected := sel\<rparr>) f of
                     (Inl i, f) \<Rightarrow> Some (i, f)
                   | (Inr m, f) \<Rightarrow> choose_loop F lo c m (stall_ms F 100 f)))
      | (None, f) \<Rightarrow>
          (case tick_effect F lo c m f of
             (Inl i, f) \<Rightarrow> Some (i, f)
           | (Inr m, f) \<Rightarrow> choose_loop F lo c m (stall_ms F 100 f)))"

definition start_menu :: "config \<Rightarrow> menu" where
  "start_menu c = \<lparr>selected = default_entry c, remaining = timeout c, counting = True, ticks = 0\<rparr>"

definition choose_entry :: "'f firmware \<Rightarrow> config \<Rightarrow> 'f \<Rightarrow> (nat \<times> 'f) option" where
  "choose_entry F c f =
     (if length (entries c) \<le> 1 \<or> timeout c = 0 then Some (default_entry c, f)
      else
        (case plan F (length (entries c)) f of (lo, f) \<Rightarrow>
           let sel = default_entry c;
               f = (case lo of
                      Some l \<Rightarrow> draw F l c sel (enable_cursor F False f)
                    | None \<Rightarrow> render_scrolling F c sel f);
               f = (case lo of Some l \<Rightarrow> countdown F l c sel (timeout c) f | None \<Rightarrow> f)
           in case choose_loop F lo c (start_menu c) f of
                None \<Rightarrow> None
              | Some (i, f) \<Rightarrow>
                  Some (i, (case lo of
                     Some l \<Rightarrow> snd (set_cursor_position F 0 (status_row l + 1) (enable_cursor F True f))
                   | None \<Rightarrow> f))))"

section \<open>The machine behind the loop\<close>

text \<open>One poll, of a menu of \<open>n\<close> entries: what the key does, and then what the clock does.\<close>

fun menu_key :: "nat \<Rightarrow> key \<Rightarrow> nat \<Rightarrow> nat + nat" where
  "menu_key n (KeySpecial ScanUp) sel = Inr (if sel = 0 then n - 1 else sel - 1)"
| "menu_key n (KeySpecial ScanDown) sel = Inr ((sel + 1) mod n)"
| "menu_key n (KeySpecial (ScanOther c)) sel = Inr sel"
| "menu_key n (KeyPrintable ch) sel =
     (if unat ch = 13 \<or> unat ch = 10 then Inl sel
      else if 49 \<le> unat ch \<and> unat ch \<le> 57 \<and> unat ch - 48 \<le> n then Inl (unat ch - 49)
      else Inr sel)"

definition menu_tick :: "menu \<Rightarrow> nat + menu" where
  "menu_tick m =
     (if \<not> counting m then Inr m
      else let t = ticks m + 1; left = (if t mod 10 = 0 then remaining m - 1 else remaining m)
           in if left = 0 \<and> t mod 10 = 0 then Inl (selected m) else Inr (m\<lparr>ticks := t, remaining := left\<rparr>))"

definition menu_step :: "nat \<Rightarrow> key option \<Rightarrow> menu \<Rightarrow> nat + menu" where
  "menu_step n ko m =
     (case ko of
        None \<Rightarrow> menu_tick m
      | Some k \<Rightarrow> (case menu_key n k (selected m) of
          Inl i \<Rightarrow> Inl i
        | Inr sel \<Rightarrow> Inr (m\<lparr>selected := sel, counting := False\<rparr>)))"

inductive menu_run :: "nat \<Rightarrow> menu \<Rightarrow> key option list \<Rightarrow> nat \<Rightarrow> bool" for n where
  boots: "menu_step n ko m = Inl i \<Longrightarrow> menu_run n m [ko] i"
| polls: "menu_step n ko m = Inr m' \<Longrightarrow> menu_run n m' ks i \<Longrightarrow> menu_run n m (ko # ks) i"

inductive menu_reach :: "nat \<Rightarrow> menu \<Rightarrow> menu \<Rightarrow> bool" for n m0 where
  start: "menu_reach n m0 m0"
| step: "menu_reach n m0 m \<Longrightarrow> menu_step n ko m = Inr m' \<Longrightarrow> menu_reach n m0 m'"

inductive_cases menu_run_Nil [elim!]: "menu_run n m [] i"
inductive_cases menu_run_Cons [elim]: "menu_run n m (ko # ks) i"

section \<open>Numbers\<close>

lemma length_decimal: "n < 10 ^ k \<Longrightarrow> 0 < k \<Longrightarrow> length (decimal n) \<le> k"
proof (induction k arbitrary: n)
  case (Suc k)
  show ?case
  proof (cases "n < 10")
    case True
    then show ?thesis by (subst decimal.simps) simp
  next
    case False
    with Suc.prems have "0 < k" by (cases k) auto
    moreover have "n div 10 < 10 ^ k" using Suc.prems by (simp add: less_mult_imp_div_less mult.commute)
    ultimately have "length (decimal (n div 10)) \<le> k" by (rule Suc.IH [rotated])
    with False show ?thesis by (subst decimal.simps) simp
  qed
qed simp

definition digits_at :: "ustr \<Rightarrow> nat \<Rightarrow> nat \<Rightarrow> ustr" where
  "digits_at ds k n = take n (drop k ds)"

lemma num_digits_decimal:
  assumes "0 < n" and "len + length (decimal n) \<le> length ds"
  shows "\<exists>ds'. num_digits n ds len = Some (ds', len + length (decimal n)) \<and> length ds' = length ds \<and>
    (\<forall>j < len. ds' ! j = ds ! j) \<and> rev (digits_at ds' len (length (decimal n))) = decimal n"
  using assms
proof (induction n arbitrary: ds len rule: less_induct)
  case (less n)
  let ?ds = "ds[len := 48 + n mod 10]"
  have l: "len < length ds" using less.prems by (cases "decimal n") auto
  have unfold: "num_digits n ds len = num_digits (n div 10) ?ds (len + 1)"
    using less.prems(1) l by (subst num_digits.simps) simp
  show ?case
  proof (cases "n < 10")
    case True
    then have "decimal n = [48 + n]" by (subst decimal.simps) simp
    moreover have "num_digits n ds len = Some (?ds, len + 1)"
      using unfold True by (subst (asm) (2) num_digits.simps) simp
    moreover have "take 1 (drop len ?ds) = [48 + n]"
      using l True by (simp add: take_Suc hd_drop_conv_nth)
    ultimately show ?thesis by (simp add: digits_at_def)
  next
    case False
    let ?q = "n div 10"
    have d: "decimal n = decimal ?q @ [48 + n mod 10]" using False by (subst decimal.simps) simp
    have "0 < ?q" "?q < n" using False by auto
    moreover have "len + 1 + length (decimal ?q) \<le> length ?ds" using less.prems(2) d by simp
    ultimately obtain ds' where IH: "num_digits ?q ?ds (len + 1) = Some (ds', len + 1 + length (decimal ?q))"
        "length ds' = length ?ds" "\<forall>j < len + 1. ds' ! j = ?ds ! j"
        "rev (digits_at ds' (len + 1) (length (decimal ?q))) = decimal ?q"
      using less.IH by blast
    have "ds' ! len = 48 + n mod 10" using IH(3) l by simp
    moreover have "drop len ds' = ds' ! len # drop (len + 1) ds'"
      using IH(2) l by (simp add: Cons_nth_drop_Suc)
    ultimately have "digits_at ds' len (length (decimal n)) =
        (48 + n mod 10) # digits_at ds' (len + 1) (length (decimal ?q))"
      by (simp add: digits_at_def d)
    with IH unfold d show ?thesis by auto
  qed
qed

lemma push_digits_eq: "len \<le> length ds \<Longrightarrow> push_digits s ds len = s @ rev (take len ds)"
  by (induction len arbitrary: s) (simp_all add: take_Suc_conv_app_nth)

text \<open>The array of twenty is enough for every \<open>usize\<close>.\<close>

lemma push_num_decimal:
  assumes "n < 2 ^ 64"
  shows "push_num s n = Some (s @ decimal n)"
proof (cases "n = 0")
  case True
  then show ?thesis by (subst decimal.simps) (simp add: push_num_def)
next
  case False
  have "(2 :: nat) ^ 64 \<le> 10 ^ 20" by simp
  then have "n < 10 ^ 20" using assms by linarith
  then have "length (decimal n) \<le> 20" by (rule length_decimal) simp
  then obtain ds where "num_digits n (replicate 20 0) 0 = Some (ds, length (decimal n))"
      "length ds = 20" "rev (digits_at ds 0 (length (decimal n))) = decimal n"
    using num_digits_decimal [of n 0 "replicate 20 0"] False by auto
  with False \<open>length (decimal n) \<le> 20\<close> show ?thesis
    by (simp add: push_num_def push_digits_eq digits_at_def)
qed

section \<open>The loop is the machine\<close>

lemma key_effect_menu: "fst (key_effect F lo c k sel f) = menu_key (length (entries c)) k sel"
  by (auto simp: key_effect_def Let_def to_digit10_def split: key.split scan_code.split)

lemma tick_effect_menu: "fst (tick_effect F lo c m f) = menu_tick m"
  by (auto simp: tick_effect_def menu_tick_def Let_def)

lemma menu_tick_waits: "\<not> counting m \<Longrightarrow> menu_tick m = Inr m"
  by (simp add: menu_tick_def)

text \<open>One turn of the loop, by what the machine does.\<close>

lemma choose_loop_step:
  assumes "read_key F f = (ko, f1)"
  shows "\<exists>f2. choose_loop F lo c m f =
    (case menu_step (length (entries c)) ko m of Inl i \<Rightarrow> Some (i, f2) | Inr m' \<Rightarrow> choose_loop F lo c m' f2)"
proof (cases ko)
  case None
  obtain r f2 where t: "tick_effect F lo c m f1 = (r, f2)" by force
  then have "menu_tick m = r" using tick_effect_menu [of F lo c m f1] by simp
  with None assms t show ?thesis
    by (subst choose_loop.simps) (cases r; auto simp: menu_step_def)
next
  case (Some k)
  define g where "g = (if counting m then show_cancelled F lo f1 else f1)"
  obtain r f2 where k: "key_effect F lo c k (selected m) g = (r, f2)" by force
  then have r: "menu_key (length (entries c)) k (selected m) = r"
    using key_effect_menu [of F lo c k "selected m" g] by simp
  show ?thesis
  proof (cases r)
    case (Inl i)
    with Some assms k r show ?thesis
      by (subst choose_loop.simps) (auto simp: menu_step_def Let_def g_def [symmetric])
  next
    case (Inr sel)
    let ?m = "m\<lparr>selected := sel, counting := False\<rparr>"
    have "tick_effect F lo c (m\<lparr>counting := False, selected := sel\<rparr>) f2 = (Inr ?m, f2)"
      by (simp add: tick_effect_def)
    with Some assms k r Inr show ?thesis
      by (subst choose_loop.simps) (auto simp: menu_step_def Let_def g_def [symmetric])
  qed
qed

lemma choose_loop_runs:
  assumes "choose_loop F lo c m f = Some (i, f')"
  shows "\<exists>ks. menu_run (length (entries c)) m ks i"
proof -
  have "\<exists>ks. menu_run (length (entries c)) m ks (fst r)" if "choose_loop F lo c m f = Some r" for r
    using that
  proof (induction rule: choose_loop.raw_induct [rotated, consumes 1, case_names step])
    case (step loop F lo c m f r)
    let ?n = "length (entries c)"
    obtain ko f1 where ko: "read_key F f = (ko, f1)" by force
    have boots: "menu_run ?n m [ko] i" if "menu_step ?n ko m = Inl i" for i
      using that by (rule menu_run.boots)
    have polls: "\<exists>ks. menu_run ?n m ks (fst r)"
      if "menu_step ?n ko m = Inr m'" "loop F lo c m' f'' = Some r" for m' f''
      using step(1) [OF that(2)] menu_run.polls [OF that(1)] by blast
    show ?case
    proof (cases ko)
      case None
      obtain t f2 where t: "tick_effect F lo c m f1 = (t, f2)" by force
      then have mt: "menu_tick m = t" using tick_effect_menu [of F lo c m f1] by simp
      show ?thesis
        using step(2) ko None t mt boots polls by (cases t) (auto simp: menu_step_def)
    next
      case (Some k)
      define g where "g = (if counting m then show_cancelled F lo f1 else f1)"
      obtain t f2 where k: "key_effect F lo c k (selected m) g = (t, f2)" by force
      then have mt: "menu_key ?n k (selected m) = t"
        using key_effect_menu [of F lo c k "selected m" g] by simp
      have tick: "tick_effect F lo c (m\<lparr>counting := False, selected := sel\<rparr>) f2 =
          (Inr (m\<lparr>selected := sel, counting := False\<rparr>), f2)" for sel
        by (simp add: tick_effect_def)
      show ?thesis
        using step(2) ko Some k mt boots polls tick
        by (cases t) (auto simp: menu_step_def Let_def g_def [symmetric])
    qed
  qed
  from this [OF assms] show ?thesis by simp
qed

text \<open>What the machine keeps: a selection that is an entry, and time left while it counts.\<close>

definition menu_ok :: "nat \<Rightarrow> menu \<Rightarrow> bool" where
  "menu_ok n m \<longleftrightarrow> selected m < n \<and> (counting m \<longrightarrow> 0 < remaining m)"

lemma menu_key_sel: "menu_key n k sel = Inr sel' \<Longrightarrow> sel < n \<Longrightarrow> sel' < n"
  by (induction n k sel rule: menu_key.induct) (auto split: if_splits)

lemma menu_key_boot: "menu_key n k sel = Inl i \<Longrightarrow> sel < n \<Longrightarrow> i < n"
  by (induction n k sel rule: menu_key.induct) (auto split: if_splits)

lemma menu_tick_ok: "menu_tick m = Inr m' \<Longrightarrow> menu_ok n m \<Longrightarrow> menu_ok n m'"
  by (auto simp: menu_tick_def menu_ok_def Let_def word_neq_0_conv split: if_splits)

lemma menu_step_ok: "menu_step n ko m = Inr m' \<Longrightarrow> menu_ok n m \<Longrightarrow> menu_ok n m'"
  by (auto simp: menu_step_def menu_tick_ok menu_ok_def menu_key_sel split: option.splits sum.splits)
    (auto dest: menu_tick_ok [of m m' n] simp: menu_ok_def)

lemma menu_step_boot: "menu_step n ko m = Inl i \<Longrightarrow> selected m < n \<Longrightarrow> i < n"
  by (auto simp: menu_step_def menu_tick_def Let_def dest: menu_key_boot split: option.splits sum.splits if_splits)

lemma menu_reach_ok: "menu_reach n m0 m \<Longrightarrow> menu_ok n m0 \<Longrightarrow> menu_ok n m"
  by (induction rule: menu_reach.induct) (auto intro: menu_step_ok)

lemma menu_run_reaches:
  "menu_run n m ks i \<Longrightarrow> \<exists>m' ko. menu_reach n m m' \<and> menu_step n ko m' = Inl i"
proof (induction rule: menu_run.induct)
  case (boots ko m i)
  then show ?case using menu_reach.start by blast
next
  case (polls ko m m' ks i)
  have "menu_reach n m m''" if "menu_reach n m' m''" for m''
    using that
  proof (induction rule: menu_reach.induct)
    case start
    show ?case by (rule menu_reach.step [OF menu_reach.start polls.hyps(1)])
  next
    case (step a ko' b)
    show ?case by (rule menu_reach.step [OF step.IH step.hyps(2)])
  qed
  with polls.IH show ?case by blast
qed

lemma menu_run_index:
  assumes "menu_run n m ks i" and "menu_ok n m"
  shows "i < n"
proof -
  obtain m' ko where m': "menu_reach n m m'" "menu_step n ko m' = Inl i"
    using menu_run_reaches [OF assms(1)] by blast
  have "menu_ok n m'" by (rule menu_reach_ok [OF m'(1) assms(2)])
  with menu_step_boot [OF m'(2)] show ?thesis by (simp add: menu_ok_def)
qed

text \<open>Time: \<open>polls_left\<close> silent polls until the machine boots what is selected.\<close>

definition polls_left :: "menu \<Rightarrow> nat" where
  "polls_left m = 10 * unat (remaining m) - unat (ticks m) mod 10"

lemma unat_succ: "unat (x :: u64) + 1 < 2 ^ 64 \<Longrightarrow> unat (x + 1) = unat x + 1"
  using unat_add_no_overflow [of x 1] by simp

lemma unat_pred: "0 < (x :: u64) \<Longrightarrow> unat (x - 1) = unat x - 1"
  by (rule unat_minus_one) (simp add: word_neq_0_conv)

lemma word_mod_10: "(x :: u64) mod 10 = 0 \<longleftrightarrow> unat x mod 10 = 0"
  by (simp add: word_unat_eq_iff unat_mod)

lemma mod_10_succ:
  fixes k :: nat
  shows "(k + 1) mod 10 = 0 \<Longrightarrow> k mod 10 = 9"
    and "(k + 1) mod 10 \<noteq> 0 \<Longrightarrow> (k + 1) mod 10 = k mod 10 + 1"
    and "(k + 1) mod 10 \<noteq> 0 \<Longrightarrow> k mod 10 < 9"
proof -
  have "k mod 10 < 10" by simp
  then show "(k + 1) mod 10 = 0 \<Longrightarrow> k mod 10 = 9"
    "(k + 1) mod 10 \<noteq> 0 \<Longrightarrow> (k + 1) mod 10 = k mod 10 + 1" "(k + 1) mod 10 \<noteq> 0 \<Longrightarrow> k mod 10 < 9"
    by (auto simp: mod_Suc split: if_splits)
qed

lemma menu_tick_counts:
  assumes "counting m" and "0 < remaining m" and "unat (ticks m) + polls_left m < 2 ^ 64"
  shows "if polls_left m = 1 then menu_tick m = Inl (selected m)
    else \<exists>m'. menu_tick m = Inr m' \<and> counting m' \<and> 0 < remaining m' \<and> selected m' = selected m \<and>
      polls_left m = polls_left m' + 1 \<and> unat (ticks m') + polls_left m' < 2 ^ 64"
proof -
  let ?r = "unat (remaining m)" and ?k = "unat (ticks m)"
  have r: "0 < ?r" using assms(2) by (simp add: unat_gt_0 word_neq_0_conv)
  moreover have "?k mod 10 < 10" by simp
  ultimately have p: "1 \<le> polls_left m" unfolding polls_left_def by linarith
  with assms(3) have t: "unat (ticks m + 1) = ?k + 1" by (intro unat_succ) simp
  have r1: "unat (remaining m - 1) = ?r - 1" by (rule unat_pred [OF assms(2)])
  have r0: "remaining m - 1 = 0 \<longleftrightarrow> ?r = 1"
    using r r1 by (auto simp: word_unat_eq_iff)
  show ?thesis
  proof (cases "(?k + 1) mod 10 = 0")
    case True
    note k9 = mod_10_succ(1) [OF True]
    have tm: "(ticks m + 1) mod 10 = 0" using True t by (simp add: word_mod_10)
    show ?thesis
    proof (cases "?r = 1")
      case True
      then have "polls_left m = 1" by (simp add: polls_left_def k9)
      with True r0 tm assms(1) show ?thesis by (simp add: menu_tick_def)
    next
      case False
      define m' where "m' = m\<lparr>ticks := ticks m + 1, remaining := remaining m - 1\<rparr>"
      have "0 < remaining m - 1" using False r r1 by (auto simp: word_gt_0 word_unat_eq_iff)
      then have m': "menu_tick m = Inr m'" "counting m'" "0 < remaining m'" "selected m' = selected m"
        using tm assms(1) by (auto simp: menu_tick_def m'_def)
      have "polls_left m' = 10 * (?r - 1)" using True r1 t by (simp add: polls_left_def m'_def)
      moreover have "polls_left m = 10 * ?r - 9" by (simp add: polls_left_def k9)
      ultimately have "polls_left m = polls_left m' + 1" "polls_left m \<noteq> 1" using False r by linarith+
      with m' t assms(3) show ?thesis by (simp add: m'_def)
    qed
  next
    case False
    note k = mod_10_succ(2,3) [OF False]
    have tm: "(ticks m + 1) mod 10 \<noteq> 0" using False t by (simp add: word_mod_10)
    define m' where "m' = m\<lparr>ticks := ticks m + 1\<rparr>"
    have m': "menu_tick m = Inr m'" "counting m'" "0 < remaining m'" "selected m' = selected m"
      using tm assms(1,2) by (auto simp: menu_tick_def m'_def)
    have "polls_left m' = 10 * ?r - (?k mod 10 + 1)" using k(1) t by (simp add: polls_left_def m'_def)
    moreover have "?k mod 10 + 1 < 10 * ?r" using k(2) r by linarith
    ultimately have "polls_left m = polls_left m' + 1" "polls_left m \<noteq> 1" by (simp_all add: polls_left_def)
    with m' t assms(3) show ?thesis by (simp add: m'_def)
  qed
qed

lemma menu_run_silent:
  assumes "counting m" and "0 < remaining m" and "unat (ticks m) + polls_left m < 2 ^ 64"
  shows "menu_run n m (replicate (polls_left m) None) (selected m)"
  using assms
proof (induction "polls_left m" arbitrary: m)
  case 0
  then have "0 < unat (remaining m)" by (simp add: unat_gt_0 word_neq_0_conv)
  moreover have "unat (ticks m) mod 10 < 10" by simp
  ultimately show ?case using 0 unfolding polls_left_def by linarith
next
  case (Suc p)
  note tick = menu_tick_counts [OF Suc.prems]
  show ?case
  proof (cases "polls_left m = 1")
    case True
    with tick show ?thesis by (auto simp: menu_step_def intro: menu_run.boots)
  next
    case False
    with tick obtain m' where m': "menu_tick m = Inr m'" "counting m'" "0 < remaining m'"
        "selected m' = selected m" "polls_left m = polls_left m' + 1" "unat (ticks m') + polls_left m' < 2 ^ 64"
      by auto
    have "menu_run n m' (replicate (polls_left m') None) (selected m')"
      using Suc.hyps m' by (intro Suc.hyps(1)) simp_all
    moreover have "menu_step n None m = Inr m'" using m'(1) by (simp add: menu_step_def)
    ultimately show ?thesis
      using m'(4,5) menu_run.polls by simp
  qed
qed

lemma choose_loop_silent:
  assumes "menu_run n m ks i" and "\<forall>k \<in> set ks. k = None" and "\<And>f. fst (read_key F f) = None"
    and "n = length (entries c)"
  shows "\<exists>f'. choose_loop F lo c m f = Some (i, f')"
  using assms
proof (induction arbitrary: f rule: menu_run.induct)
  case (boots ko m i)
  obtain f1 where "read_key F f = (None, f1)" using boots.prems(2) [of f] by (metis prod.collapse)
  from choose_loop_step [OF this, of lo c m] boots show ?case by auto
next
  case (polls ko m m' ks i)
  obtain f1 where "read_key F f = (None, f1)" using polls.prems(2) [of f] by (metis prod.collapse)
  from choose_loop_step [OF this, of lo c m] polls obtain f2 where
    "choose_loop F lo c m f = choose_loop F lo c m' f2" by auto
  with polls.IH [of f2] polls.prems show ?case by auto
qed

lemma not_counting_silent: "\<not> counting m \<Longrightarrow> \<not> menu_run n m (replicate j None) i"
  by (induction j) (auto simp: menu_step_def menu_tick_waits)

text \<open>The rows of a menu on the screen, from the first to the last.\<close>

definition menu_rows :: "layout \<Rightarrow> nat list" where
  "menu_rows l = [title_row l, title_row l + 1] @ map (entry_row l) [0..<n_entries l] @
     [entry_row l (n_entries l), hint_row l, status_row l]"

lemma menu_rows_eq: "menu_rows l = map ((+) (origin l)) [0..<height l]"
proof -
  have u: "[0..<5 + n] = [0, 1] @ map (\<lambda>i. 2 + i) [0..<n] @ [2 + n, 3 + n, 4 + n]" for n
    by (induction n) (simp_all add: upt_rec [of 0] upt_rec [of "Suc 0"] numeral_eq_Suc)
  show ?thesis
    unfolding menu_rows_def height_def u
    by (simp add: title_row_def entry_row_def hint_row_def status_row_def add.assoc)
qed

text \<open>What the loop returns, \<open>choose\<close> returns.\<close>

lemma choose_entry_loop:
  assumes "\<And>lo g. \<exists>f'. choose_loop F lo c (start_menu c) g = Some (i, f')"
    and "length (entries c) \<le> 1 \<or> timeout c = 0 \<Longrightarrow> i = default_entry c"
  shows "\<exists>f'. choose_entry F c f = Some (i, f')"
proof -
  obtain h where h: "choose_loop F lo c (start_menu c) g = Some (i, h lo g)" for lo g
    using assms(1) by metis
  obtain lo f1 where "plan F (length (entries c)) f = (lo, f1)" by force
  with h assms(2) show ?thesis by (cases lo) (simp_all add: choose_entry_def Let_def)
qed

section \<open>What the menu promises\<close>




text \<open>
  C39: a menu that is drawn at fixed rows fits the screen: its lines take every row from the
  cursor's on once, all of them on the screen, and each is exactly one column short of its width.
\<close>

theorem plan_fits:
  assumes "plan F n f = (Some l, f')" and "current_mode F f = (Some (c, rows), f1)"
  shows "n_entries l = n \<and> cols l = c \<and> 20 \<le> c \<and> distinct (menu_rows l) \<and>
    set (menu_rows l) = {origin l..<origin l + height l} \<and> origin l + height l \<le> rows \<and>
    (\<forall>s. length (line_text l s) = c - 1)"
proof -
  have l: "n_entries l = n" "cols l = c" "20 \<le> c" "origin l + height l \<le> rows"
    using assms by (auto simp: plan_def Let_def split: prod.splits if_splits bool.splits)
  have "set (menu_rows l) = {origin l..<origin l + height l}"
    by (auto simp: menu_rows_eq)
  moreover have "distinct (menu_rows l)" by (simp add: menu_rows_eq distinct_map)
  moreover have "length (line_text l s) = c - 1" for s by (auto simp: line_text_def Let_def l(2))
  ultimately show ?thesis using l by blast
qed

text \<open>
  \<open>push_num\<close> writes the decimal numeral of every \<open>usize\<close>: its twenty digits are never too few.
\<close>

theorem push_num_is_decimal:
  "push_num s (unat (x :: u64)) = Some (s @ decimal (unat x))"
  by (rule push_num_decimal) (rule unat_u64_bound)

section \<open>Examples\<close>

definition demo_keys :: "grants firmware" where
  "demo_keys = demo_fw\<lparr>read_key := (\<lambda>f. (Some (KeyPrintable 0x32), f)), current_mode := (\<lambda>f. (Some (80, 25), f)),
     set_cursor_position := (\<lambda>_ _ f. (True, f))\<rparr>"




theorem plan_fits_witness:
  "\<exists>l f'. plan demo_keys 3 [] = (Some l, f') \<and> origin l + height l \<le> 25"
proof -
  have p: "plan demo_keys 3 [] = (Some \<lparr>origin = 0, cols = 80, n_entries = 3\<rparr>, [])"
    by (simp add: plan_def demo_keys_def demo_fw_def height_def Let_def)
  have m: "current_mode demo_keys [] = (Some (80, 25), [])" by (simp add: demo_keys_def)
  from plan_fits [OF p m] p show ?thesis by auto
qed

end
