(* ===== verification/Page.thy ===== *)
theory Page
  imports Memory
begin

text \<open>
  Runs of memory as sets of addresses, and a page of memory as a list of bytes: the Linux
  \<open>boot_params\<close> and the page the trampoline copies itself to are built in one.
\<close>

section \<open>Runs\<close>

definition run_of :: "u64 \<Rightarrow> nat \<Rightarrow> u64 set" where
  "run_of p n = {x. in_range p n x}"

lemma run_of_sub:
  assumes "run_of p (k + n) \<subseteq> S" and "k + n < 2 ^ 64"
  shows "run_of (p + of_nat k) n \<subseteq> S"
proof
  fix x assume "x \<in> run_of (p + of_nat k) n"
  moreover obtain i where i: "x = (p + of_nat k) + of_nat i" "i < 2 ^ 64" by (rule offset_exhaust)
  ultimately have "i < n" by (simp add: run_of_def)
  then have "k + i < k + n" "k + i < 2 ^ 64" using assms(2) by auto
  moreover have "x = p + of_nat (k + i)" using i(1) by simp
  ultimately have "x \<in> run_of p (k + n)" unfolding run_of_def by (simp del: of_nat_add)
  with assms(1) show "x \<in> S" by blast
qed

lemma same_outside_run: "same_outside a n m m' \<Longrightarrow> x \<notin> run_of a n \<Longrightarrow> m' x = m x"
  by (simp add: same_outside_def run_of_def)

lemma mem_write_run: "x \<notin> run_of a (length bs) \<Longrightarrow> mem_write m a bs x = m x"
  by (simp add: run_of_def)

lemma mem_fill_run: "x \<notin> run_of a n \<Longrightarrow> mem_fill m a n v x = m x"
  by (simp add: run_of_def)

lemma mem_read_run:
  assumes "\<And>x. x \<in> run_of a n \<Longrightarrow> m' x = m x" and "n < 2 ^ 64"
  shows "mem_read m' a n = mem_read m a n"
  using assms by (intro mem_read_cong) (simp add: run_of_def)

section \<open>A page\<close>

interpretation bp: framed_store "win_get a" "win_put a" "\<lambda>_. 4096" "same_outside a 4096"
  for a :: u64
proof unfold_locales
  fix m :: memory and k i :: nat and bs :: bytes
  assume "k + length bs \<le> 4096" "i < 4096"
  then show "win_get a (win_put a m k bs) i =
      (if k \<le> i \<and> i < k + length bs then bs ! (i - k) else win_get a m i)"
    by (intro win_get_put) simp_all
qed (auto intro: same_outside_trans same_outside_put)

definition page :: "u64 \<Rightarrow> memory \<Rightarrow> bytes" where
  "page a m = mem_read m a 4096"

lemma page_view: "bp.view a m = page a m"
  by (rule nth_equalityI) (simp_all add: page_def win_get_def)

lemma length_page [simp]: "length (page a m) = 4096"
  by (simp add: page_def)

lemma page_put: "k + length bs \<le> 4096 \<Longrightarrow> page a (win_put a m k bs) = splice (page a m) k bs"
  using bp.view_put [of k bs a m] by (simp add: page_view)

lemma page_away: "run_of a 4096 \<inter> run_of b (length bs) = {} \<Longrightarrow> page a (mem_write m b bs) = page a m"
proof -
  assume d: "run_of a 4096 \<inter> run_of b (length bs) = {}"
  have "mem_write m b bs (a + of_nat i) = m (a + of_nat i)" if "i < 4096" for i
  proof (rule mem_write_outside)
    have "a + of_nat i \<in> run_of a 4096" using that by (simp add: run_of_def)
    with d show "\<not> in_range b (length bs) (a + of_nat i)" by (auto simp: run_of_def)
  qed
  then show ?thesis unfolding page_def by (rule mem_read_cong)
qed

end
