(* ===== verification/Linux.thy ===== *)
theory Linux
  imports Config Page
begin

text \<open>
  \<open>linux.rs\<close>: booting a bzImage through the EFI handover protocol. Handing over is the result of
  \<open>linux_boot\<close>, with the entry point and the address of \<open>boot_params\<close>; the call itself, with the
  image handle and the system table that are passed along, is in \<open>LinuxEntry\<close>.
\<close>

section \<open>The setup header\<close>

definition SETUP_SECTS :: nat where "SETUP_SECTS = 0x1F1"
definition BOOT_FLAG :: nat where "BOOT_FLAG = 0x1FE"
definition HEADER_MAGIC :: nat where "HEADER_MAGIC = 0x202"
definition PROTOCOL_VERSION :: nat where "PROTOCOL_VERSION = 0x206"
definition TYPE_OF_LOADER :: nat where "TYPE_OF_LOADER = 0x210"
definition LOADFLAGS :: nat where "LOADFLAGS = 0x211"
definition CODE32_START :: nat where "CODE32_START = 0x214"
definition RAMDISK_IMAGE :: nat where "RAMDISK_IMAGE = 0x218"
definition RAMDISK_SIZE :: nat where "RAMDISK_SIZE = 0x21C"
definition CMD_LINE_PTR :: nat where "CMD_LINE_PTR = 0x228"
definition KERNEL_ALIGNMENT :: nat where "KERNEL_ALIGNMENT = 0x230"
definition RELOCATABLE :: nat where "RELOCATABLE = 0x234"
definition XLOADFLAGS :: nat where "XLOADFLAGS = 0x236"
definition CMDLINE_SIZE :: nat where "CMDLINE_SIZE = 0x238"
definition PREF_ADDRESS :: nat where "PREF_ADDRESS = 0x258"
definition INIT_SIZE :: nat where "INIT_SIZE = 0x260"
definition HANDOVER_OFFSET :: nat where "HANDOVER_OFFSET = 0x264"

lemmas header_offsets = SETUP_SECTS_def BOOT_FLAG_def HEADER_MAGIC_def PROTOCOL_VERSION_def
  TYPE_OF_LOADER_def LOADFLAGS_def CODE32_START_def RAMDISK_IMAGE_def RAMDISK_SIZE_def
  CMD_LINE_PTR_def KERNEL_ALIGNMENT_def RELOCATABLE_def XLOADFLAGS_def CMDLINE_SIZE_def
  PREF_ADDRESS_def INIT_SIZE_def HANDOVER_OFFSET_def

definition BOOT_FLAG_MAGIC :: u16 where "BOOT_FLAG_MAGIC = 0xAA55"
definition HDRS_MAGIC :: u32 where "HDRS_MAGIC = 0x53726448"
definition MIN_VERSION :: u16 where "MIN_VERSION = 0x020B"
definition XLF_EFI_HANDOVER_64 :: u16 where "XLF_EFI_HANDOVER_64 = 8"
definition LOADFLAG_LOADED_HIGH :: u8 where "LOADFLAG_LOADED_HIGH = 0x01"
definition LOADER_UNKNOWN :: u8 where "LOADER_UNKNOWN = 0xFF"
definition HANDOVER_64_OFFSET :: u64 where "HANDOVER_64_OFFSET = 512"

definition u8_at :: "bytes \<Rightarrow> nat \<Rightarrow> u8" where
  "u8_at b k = b ! k"

definition u16_at :: "bytes \<Rightarrow> nat \<Rightarrow> u16" where
  "u16_at b k = of_le (slice b k 2)"

definition u32_at :: "bytes \<Rightarrow> nat \<Rightarrow> u32" where
  "u32_at b k = of_le (slice b k 4)"

definition u64_at :: "bytes \<Rightarrow> nat \<Rightarrow> u64" where
  "u64_at b k = of_le (slice b k 8)"

text \<open>\<open>put_u32\<close> on the \<open>boot_params\<close> page, which is memory at \<open>a\<close>.\<close>

definition put_u32 :: "u64 \<Rightarrow> nat \<Rightarrow> u32 \<Rightarrow> memory \<Rightarrow> memory" where
  "put_u32 a k v m = mem_write m (a + of_nat k) (to_le 4 v)"

section \<open>Files and pages\<close>

function read_all :: "'f firmware \<Rightarrow> handle \<Rightarrow> nat \<Rightarrow> bytes \<Rightarrow> 'f \<Rightarrow> bytes \<times> 'f" where
  "read_all F h len acc f =
     (if length acc < len then
        (case file_read F h (len - length acc) f of
           (Some bs, f) \<Rightarrow> if bs = [] then (acc, f) else read_all F h len (acc @ bs) f
         | (None, f) \<Rightarrow> (acc, f))
      else (acc, f))"
  by pat_completeness auto
termination
  by (relation "measure (\<lambda>(F, h, len, acc, f). len - length acc)")
    (auto intro!: diff_less_mono2)

declare read_all.simps [simp del]

definition read_file :: "'f firmware \<Rightarrow> cstr16 \<Rightarrow> 'f \<Rightarrow> bytes option \<times> 'f" where
  "read_file F p f =
     (case get_image_file_system F f of (None, f) \<Rightarrow> (None, f) | (Some fs, f) \<Rightarrow>
     (case open_volume F fs f of (None, f) \<Rightarrow> (None, f) | (Some root, f) \<Rightarrow>
     (case dir_open F root p f of (None, f) \<Rightarrow> (None, f) | (Some h, f) \<Rightarrow>
     (case into_regular_file F h f of (None, f) \<Rightarrow> (None, f) | (Some fh, f) \<Rightarrow>
     (case get_file_size F fh f of (None, f) \<Rightarrow> (None, f) | (Some len, f) \<Rightarrow>
     (case read_all F fh (unat len) [] f of (buf, f) \<Rightarrow>
        if length buf \<noteq> unat len then (None, f) else (Some buf, f)))))))"

definition alloc_low :: "'f firmware \<Rightarrow> nat \<Rightarrow> 'f mach \<Rightarrow> u64 option \<times> 'f mach" where
  "alloc_low F n st =
     (case allocate_pages F (MaxAddress 0x100000000) LOADER_DATA (of_nat (max (div_ceil n 4096) 1)) (fw st) of
        (r, f) \<Rightarrow> (r, st\<lparr>fw := f\<rparr>))"

definition next_multiple_of :: "nat \<Rightarrow> nat \<Rightarrow> nat" where
  "next_multiple_of a n = (let r = a mod n in if r = 0 then a else a + (n - r))"

section \<open>The image\<close>

definition setup_sects :: "bytes \<Rightarrow> nat" where
  "setup_sects img = (let n = unat (u8_at img SETUP_SECTS) in if n = 0 then 4 else n)"

definition kernel_offset :: "bytes \<Rightarrow> nat" where
  "kernel_offset img = (setup_sects img + 1) * 512"

definition check_image :: "bytes \<Rightarrow> status option" where
  "check_image img =
     (if length img < 0x1000 then Some LOAD_ERROR
      else if u16_at img BOOT_FLAG \<noteq> BOOT_FLAG_MAGIC \<or> u32_at img HEADER_MAGIC \<noteq> HDRS_MAGIC then Some LOAD_ERROR
      else if u16_at img PROTOCOL_VERSION < MIN_VERSION then Some UNSUPPORTED
      else if u16_at img XLOADFLAGS AND XLF_EFI_HANDOVER_64 = 0 then Some UNSUPPORTED
      else if length img \<le> kernel_offset img then Some LOAD_ERROR
      else None)"

definition kernel_bytes :: "bytes \<Rightarrow> bytes" where
  "kernel_bytes img = drop (kernel_offset img) img"

definition kernel_need :: "bytes \<Rightarrow> nat" where
  "kernel_need img = max (unat (u32_at img INIT_SIZE)) (length (kernel_bytes img))"

definition kernel_place :: "'f firmware \<Rightarrow> bytes \<Rightarrow> 'f mach \<Rightarrow> u64 option \<times> 'f mach" where
  "kernel_place F img st =
     (let need = kernel_need img; alignment = unat (u32_at img KERNEL_ALIGNMENT)
      in if u8_at img RELOCATABLE \<noteq> 0 then
           (case alloc_low F (need + alignment) st of
              (Some p, st) \<Rightarrow>
                (Some (if 1 < alignment then of_nat (next_multiple_of (unat p) alignment) else p), st)
            | (None, st) \<Rightarrow> (None, st))
         else
           (case allocate_pages F (Address (u64_at img PREF_ADDRESS)) LOADER_DATA
                   (of_nat (div_ceil need 4096)) (fw st) of
              (r, f) \<Rightarrow> (r, st\<lparr>fw := f\<rparr>)))"

definition copy_kernel :: "bytes \<Rightarrow> u64 \<Rightarrow> memory \<Rightarrow> memory" where
  "copy_kernel img kernel_mem m =
     mem_write (mem_fill m kernel_mem (kernel_need img) 0) kernel_mem (kernel_bytes img)"

definition hdr_end :: "bytes \<Rightarrow> nat" where
  "hdr_end img = min (min (HEADER_MAGIC + unat (img ! 0x201)) (length img)) 4096"

definition copy_header :: "bytes \<Rightarrow> u64 \<Rightarrow> memory \<Rightarrow> memory" where
  "copy_header img params m =
     mem_write (mem_fill m params 4096 0) (params + of_nat SETUP_SECTS)
       (slice img SETUP_SECTS (hdr_end img - SETUP_SECTS))"

section \<open>The command line\<close>

text \<open>\<open>String::truncate\<close>, to a number of bytes that has to be the end of a character.\<close>

fun truncate_str :: "nat \<Rightarrow> ustr \<Rightarrow> ustr option" where
  "truncate_str n [] = (if n = 0 then Some [] else None)"
| "truncate_str n (c # s) =
     (if n = 0 then Some []
      else if length (utf8_char c) \<le> n then map_option (Cons c) (truncate_str (n - length (utf8_char c)) s)
      else None)"

definition limit_cmdline :: "bytes \<Rightarrow> ustr \<Rightarrow> ustr option" where
  "limit_cmdline img cl =
     (let limit = unat (u32_at img CMDLINE_SIZE)
      in if 0 < limit \<and> limit < str_len cl then truncate_str limit cl else Some cl)"

section \<open>Booting\<close>

datatype linux_result = Returned status | LinuxPanic | Handover u64 u64

definition place_initrd :: "'f firmware \<Rightarrow> cstr16 option \<Rightarrow> u64 \<Rightarrow> 'f mach \<Rightarrow> 'f mach" where
  "place_initrd F initrd_path params st =
     (case initrd_path of
        None \<Rightarrow> st
      | Some p \<Rightarrow>
          (case read_file F p (fw st) of
             (None, f) \<Rightarrow> st\<lparr>fw := f\<rparr>
           | (Some initrd, f) \<Rightarrow>
               (case alloc_low F (length initrd) (st\<lparr>fw := f\<rparr>) of
                  (None, st) \<Rightarrow> st
                | (Some at, st) \<Rightarrow>
                    let m = mem_write (mem st) at initrd;
                        m = put_u32 params RAMDISK_IMAGE (ucast at) m;
                        m = put_u32 params RAMDISK_SIZE (of_nat (length initrd)) m
                    in st\<lparr>mem := m\<rparr>)))"

definition finish_params :: "u64 \<Rightarrow> u64 \<Rightarrow> memory \<Rightarrow> memory" where
  "finish_params params kernel_mem m =
     (let m = mem_write m (params + of_nat TYPE_OF_LOADER) [LOADER_UNKNOWN];
          m = mem_write m (params + of_nat LOADFLAGS) [m (params + of_nat LOADFLAGS) OR LOADFLAG_LOADED_HIGH]
      in put_u32 params CODE32_START (ucast kernel_mem) m)"

definition linux_boot :: "'f firmware \<Rightarrow> cstr16 \<Rightarrow> cstr16 option \<Rightarrow> ustr \<Rightarrow> 'f mach \<Rightarrow>
    linux_result \<times> 'f mach" where
  "linux_boot F kernel_path initrd_path cmdline st =
     (case read_file F kernel_path (fw st) of
        (None, f) \<Rightarrow> (Returned NOT_FOUND, st\<lparr>fw := f\<rparr>)
      | (Some img, f) \<Rightarrow>
     (let st = st\<lparr>fw := f\<rparr> in
      case check_image img of
        Some e \<Rightarrow> (Returned e, st)
      | None \<Rightarrow>
     (case kernel_place F img st of
        (None, st) \<Rightarrow> (Returned OUT_OF_RESOURCES, st)
      | (Some kernel_mem, st) \<Rightarrow>
     (let st = st\<lparr>mem := copy_kernel img kernel_mem (mem st)\<rparr> in
      case alloc_low F 4096 st of
        (None, st) \<Rightarrow> (Returned OUT_OF_RESOURCES, st)
      | (Some params, st) \<Rightarrow>
     (let st = st\<lparr>mem := copy_header img params (mem st)\<rparr> in
      case limit_cmdline img cmdline of
        None \<Rightarrow> (LinuxPanic, st)
      | Some cl \<Rightarrow>
     (case alloc_low F (str_len cl + 1) st of
        (None, st) \<Rightarrow> (Returned OUT_OF_RESOURCES, st)
      | (Some cmd_mem, st) \<Rightarrow>
          let m = mem_write (mem st) cmd_mem (utf8_encode cl);
              m = mem_write m (cmd_mem + of_nat (str_len cl)) [0];
              m = put_u32 params CMD_LINE_PTR (ucast cmd_mem) m;
              st = place_initrd F initrd_path params (st\<lparr>mem := m\<rparr>);
              st = st\<lparr>mem := finish_params params kernel_mem (mem st)\<rparr>;
              entry = kernel_mem + ucast (u32_at img HANDOVER_OFFSET) + HANDOVER_64_OFFSET
          in (Handover entry params, st)))))))"

section \<open>What is relied on\<close>

definition linux_contract :: "'f firmware \<Rightarrow> ('f \<Rightarrow> u64 set) \<Rightarrow> bool" where
  "linux_contract F owned \<longleftrightarrow> alloc_contract F owned \<and> max_address_contract F \<and> files_contract F owned \<and>
     (\<forall>h n f bs. fst (file_read F h n f) = Some bs \<longrightarrow> length bs \<le> n) \<and>
     (\<forall>h f len. fst (get_file_size F h f) = Some len \<longrightarrow> unat len < 2 ^ 62)"

lemma linux_contractD:
  assumes "linux_contract F owned"
  shows "alloc_contract F owned" "max_address_contract F" "files_contract F owned"
    "file_read F h n f = (Some bs, f') \<Longrightarrow> length bs \<le> n"
    "get_file_size F h f = (Some len, f') \<Longrightarrow> unat len < 2 ^ 62"
  using assms unfolding linux_contract_def by (auto, (metis fst_conv)+)

lemma div_ceil_le: "0 < b \<Longrightarrow> div_ceil a b \<le> a div b + 1"
  by (simp add: div_ceil_def)

lemma pages_small: "n < 2 ^ 63 \<Longrightarrow> unat (of_nat (max (div_ceil n 4096) 1) :: u64) = max (div_ceil n 4096) 1"
  using div_ceil_le [of 4096 n] by (intro unat_offset) auto

lemma run_of_pages:
  assumes "n \<le> unat k * 4096"
  shows "run_of p n \<subseteq> page_range p k"
  using assms by (auto simp: run_of_def page_range_def in_range_def)

lemma mult_4096_le: "4096 * x \<le> 4096 * c + 1 \<Longrightarrow> x \<le> (c :: nat)"
  by linarith

lemma alloc_low_run:
  assumes "linux_contract F owned" and "n < 2 ^ 63" and "alloc_low F n st = (Some p, st')"
  shows "run_of p n \<subseteq> owned (fw st') - owned (fw st)" and "unat p + n \<le> 2 ^ 32"
    and "owned (fw st) \<subseteq> owned (fw st')" and "mem st' = mem st"
proof -
  let ?k = "of_nat (max (div_ceil n 4096) 1) :: u64"
  note c = linux_contractD [OF assms(1)]
  obtain f where a: "allocate_pages F (MaxAddress 0x100000000) LOADER_DATA ?k (fw st) = (Some p, f)"
    and st': "st' = st\<lparr>fw := f\<rparr>"
    using assms(3) by (auto simp: alloc_low_def split: prod.splits)
  have k: "unat ?k = max (div_ceil n 4096) 1" by (rule pages_small [OF assms(2)])
  then have n: "n \<le> unat ?k * 4096" using div_ceil_mult_ge [of 4096 n] by simp
  show "run_of p n \<subseteq> owned (fw st') - owned (fw st)"
    using run_of_pages [OF n, of p] alloc_contract_new [OF c(1) a] by (auto simp: st')
  have b: "4096 dvd unat p" "unat p + unat ?k * 4096 \<le> 2 ^ 32 + 1"
    using max_address_bound [OF c(2) a] by simp_all
  then obtain q where q: "unat p = 4096 * q" by (auto elim: dvdE)
  with b(2) have "4096 * (q + unat ?k) \<le> 4096 * 1048576 + 1" by (simp add: distrib_left mult.commute)
  then have "q + unat ?k \<le> 1048576" by (rule mult_4096_le)
  then have "unat p + unat ?k * 4096 \<le> 2 ^ 32" by (simp add: q)
  with n show "unat p + n \<le> 2 ^ 32" by linarith
  show "owned (fw st) \<subseteq> owned (fw st')" using alloc_contract_owned [OF c(1) a] by (simp add: st')
  show "mem st' = mem st" by (simp add: st')
qed

lemma alloc_low_None:
  assumes "linux_contract F owned" and "alloc_low F n st = (None, st')"
  shows "owned (fw st) \<subseteq> owned (fw st')" and "mem st' = mem st"
  using assms(2)
  by (auto simp: alloc_low_def split: prod.splits dest!: alloc_contract_owned [OF linux_contractD(1) [OF assms(1)]])

section \<open>Reading files\<close>

lemma read_all_owned:
  assumes "read_all F h len acc f = (bs, f')" and "files_contract F owned"
  shows "owned f' = owned f"
  using assms
proof (induction F h len acc f rule: read_all.induct)
  case (1 F h len acc f)
  obtain r f1 where r: "file_read F h (len - length acc) f = (r, f1)" by force
  have f1: "owned f1 = owned f" by (rule files_contractD(7) [OF 1(3) r])
  show ?case
  proof (cases "length acc < len \<and> r \<noteq> None \<and> r \<noteq> Some []")
    case True
    then obtain bs' where bs': "r = Some bs'" "bs' \<noteq> []" by auto
    with True r 1(2) have "read_all F h len (acc @ bs') f1 = (bs, f')"
      by (subst (asm) read_all.simps) simp
    with 1(1) [OF _ r [symmetric] bs'(1)] bs' True 1(3) f1 show ?thesis by simp
  next
    case False
    with r 1(2) f1 show ?thesis
      by (subst (asm) (1) read_all.simps) (auto split: if_splits option.splits)
  qed
qed

lemma read_file_result:
  assumes "linux_contract F owned" and "read_file F p f = (r, f')"
  shows "owned f' = owned f" and "r = Some bs \<Longrightarrow> length bs < 2 ^ 62"
proof -
  note c = linux_contractD [OF assms(1)]
  note d = files_contractD [OF c(3)]
  show "owned f' = owned f"
    using assms(2)
    by (auto simp: read_file_def split: prod.splits option.splits if_splits
        dest!: d(1) d(2) d(3) d(4) d(6) read_all_owned [OF _ c(3)])
  show "r = Some bs \<Longrightarrow> length bs < 2 ^ 62"
    using assms(2)
    by (auto simp: read_file_def split: prod.splits option.splits if_splits dest!: c(5))
qed

section \<open>Placing the kernel\<close>

lemma next_multiple_of:
  assumes "0 < n"
  shows "a \<le> next_multiple_of a n" "next_multiple_of a n < a + n" "n dvd next_multiple_of a n"
proof -
  have r: "a mod n < n" using assms by simp
  show "a \<le> next_multiple_of a n" by (simp add: next_multiple_of_def Let_def)
  show "next_multiple_of a n < a + n"
    using assms by (cases "a mod n = 0") (simp_all add: next_multiple_of_def Let_def)
  have "a + (n - a mod n) = (a div n + 1) * n"
  proof -
    define q where "q = a div n"
    define k where "k = a mod n"
    have "a = n * q + k" "k < n" using r by (simp_all add: q_def k_def)
    then have "a + (n - k) = (q + 1) * n" by simp
    then show ?thesis by (simp only: q_def k_def)
  qed
  then show "n dvd next_multiple_of a n" by (cases "a mod n = 0") (simp_all only: next_multiple_of_def Let_def if_True if_False dvd_triv_right,
        simp add: mod_eq_0_iff_dvd)
qed

lemma kernel_need_bounds:
  assumes "length img < 2 ^ 62"
  shows "kernel_need img < 2 ^ 62" "length (kernel_bytes img) \<le> kernel_need img"
  using assms unat_u32_bound [of "u32_at img INIT_SIZE"] by (auto simp: kernel_need_def kernel_bytes_def)

lemma kernel_place_run:
  assumes "linux_contract F owned" and "length img < 2 ^ 62" and "kernel_place F img st = (Some km, st')"
  shows "run_of km (kernel_need img) \<subseteq> owned (fw st') - owned (fw st)"
    and "owned (fw st) \<subseteq> owned (fw st')" and "mem st' = mem st"
    and "u8_at img RELOCATABLE \<noteq> 0 \<Longrightarrow> unat km + kernel_need img \<le> 2 ^ 32 \<and>
      (0 < unat (u32_at img KERNEL_ALIGNMENT) \<longrightarrow> unat (u32_at img KERNEL_ALIGNMENT) dvd unat km)"
    and "u8_at img RELOCATABLE = 0 \<Longrightarrow> km = u64_at img PREF_ADDRESS"
proof -
  note c = linux_contractD [OF assms(1)]
  let ?need = "kernel_need img" and ?al = "unat (u32_at img KERNEL_ALIGNMENT)"
  note need = kernel_need_bounds(1) [OF assms(2)]
  have "run_of km ?need \<subseteq> owned (fw st') - owned (fw st) \<and> owned (fw st) \<subseteq> owned (fw st') \<and> mem st' = mem st \<and>
    (u8_at img RELOCATABLE \<noteq> 0 \<longrightarrow> unat km + ?need \<le> 2 ^ 32 \<and> (0 < ?al \<longrightarrow> ?al dvd unat km)) \<and>
    (u8_at img RELOCATABLE = 0 \<longrightarrow> km = u64_at img PREF_ADDRESS)"
  proof (cases "u8_at img RELOCATABLE = 0")
    case True
    let ?p = "u64_at img PREF_ADDRESS" and ?k = "of_nat (div_ceil ?need 4096) :: u64"
    obtain f where a: "allocate_pages F (Address ?p) LOADER_DATA ?k (fw st) = (Some km, f)"
      and st': "st' = st\<lparr>fw := f\<rparr>"
      using assms(3) True by (auto simp: kernel_place_def Let_def split: prod.splits)
    have km: "km = ?p" by (rule alloc_contract_at [OF c(1) a])
    have "unat ?k = div_ceil ?need 4096"
      using div_ceil_le [of 4096 ?need] need by (intro unat_offset) auto
    then have "?need \<le> unat ?k * 4096" using div_ceil_mult_ge [of 4096 ?need] by simp
    from run_of_pages [OF this, of km] show ?thesis
      using alloc_contract_new [OF c(1) a] alloc_contract_owned [OF c(1) a] True km
      by (auto simp: st')
  next
    case False
    have small: "?need + ?al < 2 ^ 63" using need unat_u32_bound [of "u32_at img KERNEL_ALIGNMENT"] by simp
    obtain p where a: "alloc_low F (?need + ?al) st = (Some p, st')"
      and km: "km = (if 1 < ?al then of_nat (next_multiple_of (unat p) ?al) else p)"
      using assms(3) False by (auto simp: kernel_place_def Let_def split: prod.splits option.splits)
    note r = alloc_low_run [OF assms(1) small a]
    obtain k where k: "km = p + of_nat k" "k \<le> ?al" "unat km = unat p + k" "0 < ?al \<longrightarrow> ?al dvd unat km"
    proof (cases "1 < ?al")
      case True
      let ?n = "next_multiple_of (unat p) ?al"
      note nm = next_multiple_of [of ?al "unat p"]
      have n: "?n < unat p + ?al" "unat p \<le> ?n" "?al dvd ?n" using nm True by auto
      then have "?n < 2 ^ 64" using r(2) by simp
      then have u: "unat km = ?n" using km True by (simp add: unat_offset)
      have "km = p + of_nat (?n - unat p)"
        using n(2) km True by (simp add: of_nat_diff)
      with n u show ?thesis by (intro that [of "?n - unat p"]) auto
    next
      case False
      then show ?thesis using km by (intro that [of 0]) (auto simp: le_Suc_eq not_less)
    qed
    have "run_of p (k + ?need) \<subseteq> run_of p (?need + ?al)" using k(2) by (auto simp: run_of_def in_range_def)
    then have "run_of km ?need \<subseteq> owned (fw st') - owned (fw st)"
      unfolding k(1) using r(1) k(2) small by (intro run_of_sub) auto
    with r k False show ?thesis by auto
  qed
  then show "run_of km ?need \<subseteq> owned (fw st') - owned (fw st)" "owned (fw st) \<subseteq> owned (fw st')"
    "mem st' = mem st"
    "u8_at img RELOCATABLE \<noteq> 0 \<Longrightarrow> unat km + ?need \<le> 2 ^ 32 \<and> (0 < ?al \<longrightarrow> ?al dvd unat km)"
    "u8_at img RELOCATABLE = 0 \<Longrightarrow> km = u64_at img PREF_ADDRESS"
    by blast+
qed

lemma kernel_place_None:
  assumes "linux_contract F owned" and "kernel_place F img st = (None, st')"
  shows "owned (fw st) \<subseteq> owned (fw st')" and "mem st' = mem st"
  using assms(2) alloc_low_None [OF assms(1)]
  by (auto simp: kernel_place_def Let_def split: prod.splits option.splits if_splits
      dest!: alloc_contract_owned [OF linux_contractD(1) [OF assms(1)]])

section \<open>The \<open>boot_params\<close> page\<close>

text \<open>The same page as a list of bytes: what the field writes come to.\<close>

definition header_page :: "bytes \<Rightarrow> bytes" where
  "header_page img = splice (replicate 4096 0) SETUP_SECTS (slice img SETUP_SECTS (hdr_end img - SETUP_SECTS))"

definition ramdisk_page :: "(u64 \<times> bytes) option \<Rightarrow> bytes \<Rightarrow> bytes" where
  "ramdisk_page ird b = (case ird of
     None \<Rightarrow> b
   | Some (at, bs) \<Rightarrow> splice (splice b RAMDISK_IMAGE (to_le 4 (ucast at :: u32))) RAMDISK_SIZE
       (to_le 4 (of_nat (length bs) :: u32)))"

definition finish_page :: "u64 \<Rightarrow> bytes \<Rightarrow> bytes" where
  "finish_page km b =
     (let b = splice b TYPE_OF_LOADER [LOADER_UNKNOWN];
          b = splice b LOADFLAGS [b ! LOADFLAGS OR LOADFLAG_LOADED_HIGH]
      in splice b CODE32_START (to_le 4 (ucast km :: u32)))"

definition params_page :: "bytes \<Rightarrow> u64 \<Rightarrow> (u64 \<times> bytes) option \<Rightarrow> u64 \<Rightarrow> bytes" where
  "params_page img cmd ird km =
     finish_page km (ramdisk_page ird (splice (header_page img) CMD_LINE_PTR (to_le 4 (ucast cmd :: u32))))"

lemma hdr_end_bounds: "hdr_end img \<le> 4096" "hdr_end img \<le> length img"
  by (simp_all add: hdr_end_def)

lemma length_header [simp]: "length (slice img SETUP_SECTS (hdr_end img - SETUP_SECTS)) = hdr_end img - SETUP_SECTS"
  using hdr_end_bounds [of img] by (simp add: slice_def)

lemma header_fits: "SETUP_SECTS + (hdr_end img - SETUP_SECTS) \<le> 4096"
  using hdr_end_bounds(1) [of img] by (simp add: header_offsets)

lemma length_header_page [simp]: "length (header_page img) = 4096"
  using header_fits [of img] by (simp add: header_page_def)

lemma length_ramdisk_page [simp]: "length b = 4096 \<Longrightarrow> length (ramdisk_page ird b) = 4096"
  by (auto simp: ramdisk_page_def header_offsets split: option.split prod.split)

lemma copy_header_page: "page a (copy_header img a m) = header_page img"
proof -
  have z: "page a (mem_fill m a 4096 0) = replicate 4096 0"
    by (rule nth_equalityI) (simp_all add: page_def mem_fill_def unat_offset)
  have "copy_header img a m = win_put a (mem_fill m a 4096 0) SETUP_SECTS
      (slice img SETUP_SECTS (hdr_end img - SETUP_SECTS))"
    by (simp add: copy_header_def win_put_def)
  then show ?thesis
    using header_fits [of img] by (simp add: page_put z header_page_def)
qed

lemma put_u32_page: "k + 4 \<le> 4096 \<Longrightarrow> page a (put_u32 a k v m) = splice (page a m) k (to_le 4 v)"
  using page_put [of k "to_le 4 v" a m] by (simp add: put_u32_def win_put_def)

lemma finish_params_page: "page a (finish_params a km m) = finish_page km (page a m)"
proof -
  let ?m = "win_put a m TYPE_OF_LOADER [LOADER_UNKNOWN]"
  have p: "page a ?m = splice (page a m) TYPE_OF_LOADER [LOADER_UNKNOWN]"
    by (rule page_put) (simp add: header_offsets)
  have g: "?m (a + of_nat LOADFLAGS) = page a ?m ! LOADFLAGS"
    by (simp add: page_def header_offsets)
  have "finish_params a km m = put_u32 a CODE32_START (ucast km)
      (win_put a ?m LOADFLAGS [page a ?m ! LOADFLAGS OR LOADFLAG_LOADED_HIGH])"
    unfolding g [symmetric] by (simp add: finish_params_def Let_def win_put_def)
  moreover have "page a (win_put a ?m LOADFLAGS [page a ?m ! LOADFLAGS OR LOADFLAG_LOADED_HIGH]) =
      splice (page a ?m) LOADFLAGS [page a ?m ! LOADFLAGS OR LOADFLAG_LOADED_HIGH]"
    by (rule page_put) (simp add: header_offsets)
  ultimately show ?thesis
    by (simp add: put_u32_page header_offsets(7) finish_page_def Let_def p)
qed

text \<open>The writes stay in the page.\<close>

lemma put_u32_outside: "k + 4 \<le> 4096 \<Longrightarrow> same_outside a 4096 m (put_u32 a k v m)"
  using bp.frame_put [of k "to_le 4 v" a m] by (simp add: put_u32_def win_put_def)

lemma finish_params_outside: "same_outside a 4096 m (finish_params a km m)"
  unfolding finish_params_def Let_def
  by (intro same_outside_trans [OF _ put_u32_outside] same_outside_trans [OF _ bp.frame_put [unfolded win_put_def]]
      bp.frame_put [unfolded win_put_def]) (simp_all add: header_offsets)

lemma copy_header_outside: "same_outside a 4096 m (copy_header img a m)"
proof -
  have "same_outside a 4096 m (mem_fill m a 4096 0)" by (simp add: same_outside_def)
  then show ?thesis
    unfolding copy_header_def
    using bp.frame_put [of SETUP_SECTS "slice img SETUP_SECTS (hdr_end img - SETUP_SECTS)" a "mem_fill m a 4096 0"]
      header_fits [of img]
    by (auto simp: win_put_def intro: same_outside_trans)
qed

section \<open>What is written where\<close>

text \<open>
  From the state a boot starts in: the pages handed out since then are all that is written.
\<close>

definition new_only :: "('f \<Rightarrow> u64 set) \<Rightarrow> 'f mach \<Rightarrow> 'f mach \<Rightarrow> bool" where
  "new_only owned st st' \<longleftrightarrow> owned (fw st) \<subseteq> owned (fw st') \<and>
     (\<forall>x. x \<notin> owned (fw st') - owned (fw st) \<longrightarrow> mem st' x = mem st x)"

lemma new_only_trans: "new_only owned s1 s2 \<Longrightarrow> new_only owned s2 s3 \<Longrightarrow> new_only owned s1 s3"
  unfolding new_only_def by (metis Diff_iff subsetD subset_trans)

lemma new_only_grow: "owned (fw st) \<subseteq> owned (fw st') \<Longrightarrow> mem st' = mem st \<Longrightarrow> new_only owned st st'"
  by (simp add: new_only_def)

text \<open>Writing inside pages that are new since the first state.\<close>

lemma new_only_write:
  assumes "new_only owned st st1" and "S \<subseteq> owned (fw st1) - owned (fw st)"
    and "\<And>x. x \<notin> S \<Longrightarrow> m x = mem st1 x"
  shows "new_only owned st (st1\<lparr>mem := m\<rparr>)"
  using assms unfolding new_only_def by (auto simp: subset_iff) (metis DiffI)+

lemma copy_kernel_read:
  assumes "length img < 2 ^ 62"
  shows "mem_read (copy_kernel img km m) km (kernel_need img) =
    kernel_bytes img @ replicate (kernel_need img - length (kernel_bytes img)) 0"
proof (rule nth_equalityI)
  note b = kernel_need_bounds [OF assms]
  show "length (mem_read (copy_kernel img km m) km (kernel_need img)) =
      length (kernel_bytes img @ replicate (kernel_need img - length (kernel_bytes img)) 0)"
    using b by simp
  fix i assume "i < length (mem_read (copy_kernel img km m) km (kernel_need img))"
  then have "i < kernel_need img" by simp
  then show "mem_read (copy_kernel img km m) km (kernel_need img) ! i =
      (kernel_bytes img @ replicate (kernel_need img - length (kernel_bytes img)) 0) ! i"
    using b by (simp add: copy_kernel_def mem_write_def mem_fill_def unat_offset nth_append)
qed

lemma copy_kernel_outside:
  "length img < 2 ^ 62 \<Longrightarrow> x \<notin> run_of km (kernel_need img) \<Longrightarrow> copy_kernel img km m x = m x"
  using kernel_need_bounds(2) [of img]
  by (auto simp: copy_kernel_def run_of_def in_range_def mem_write_def mem_fill_def)

lemma place_initrd_result:
  assumes c: "linux_contract F owned" and p: "run_of params 4096 \<subseteq> owned (fw st)"
    and run: "st' = place_initrd F po params st"
  shows "\<exists>ird. page params (mem st') = ramdisk_page ird (page params (mem st)) \<and>
    owned (fw st) \<subseteq> owned (fw st') \<and>
    (case ird of
       None \<Rightarrow> mem st' = mem st
     | Some (at, bs) \<Rightarrow> (\<exists>p. po = Some p \<and> fst (read_file F p (fw st)) = Some bs) \<and> run_of at (length bs) \<subseteq> owned (fw st') - owned (fw st) \<and>
         unat at + length bs \<le> 2 ^ 32 \<and> mem_read (mem st') at (length bs) = bs \<and>
         (\<forall>x. x \<notin> run_of params 4096 \<union> run_of at (length bs) \<longrightarrow> mem st' x = mem st x))"
proof -
  have none: ?thesis if "mem st' = mem st" "owned (fw st) \<subseteq> owned (fw st')"
    using that by (intro exI [of _ None]) (simp add: ramdisk_page_def)
  show ?thesis
  proof (cases po)
    case None
    with run none show ?thesis by (simp add: place_initrd_def)
  next
    case (Some q)
    obtain r f1 where r: "read_file F q (fw st) = (r, f1)" by force
    have f1: "owned f1 = owned (fw st)" by (rule read_file_result(1) [OF c r])
    show ?thesis
    proof (cases r)
      case None
      with run r Some none f1 show ?thesis by (simp add: place_initrd_def)
    next
      case bs: (Some bs)
      have len: "length bs < 2 ^ 62" using read_file_result(2) [OF c r] bs by simp
      obtain ao s2 where a: "alloc_low F (length bs) (st\<lparr>fw := f1\<rparr>) = (ao, s2)" by force
      show ?thesis
      proof (cases ao)
        case None
        then have "owned (fw st) \<subseteq> owned (fw s2)" "mem s2 = mem st"
          using alloc_low_None [OF c] a f1 by force+
        with run r Some bs a None none show ?thesis by (simp add: place_initrd_def)
      next
        case at: (Some at)
        have "length bs < 2 ^ 63" using len by simp
        note l = alloc_low_run [OF c this a [unfolded at]]
        define m1 where "m1 = mem_write (mem st) at bs"
        define m2 where "m2 = put_u32 params RAMDISK_SIZE (of_nat (length bs)) (put_u32 params RAMDISK_IMAGE (ucast at) m1)"
        have st': "st' = s2\<lparr>mem := m2\<rparr>"
          using run r Some bs a at l(4) by (simp add: place_initrd_def Let_def m1_def m2_def)
        have d: "run_of params 4096 \<inter> run_of at (length bs) = {}" using l(1) p f1 by auto
        have out: "same_outside params 4096 m1 m2"
          unfolding m2_def by (intro same_outside_trans [OF put_u32_outside put_u32_outside])
            (simp_all add: header_offsets)
        have "page params m1 = page params (mem st)" unfolding m1_def by (rule page_away [OF d])
        then have "page params m2 = ramdisk_page (Some (at, bs)) (page params (mem st))"
          by (simp add: m2_def put_u32_page ramdisk_page_def header_offsets)
        moreover have "mem_read m2 at (length bs) = mem_read m1 at (length bs)"
          using d same_outside_run [OF out] len by (intro mem_read_run) auto
        moreover have "mem_read m1 at (length bs) = bs"
          unfolding m1_def using len by (intro mem_read_write_same) simp
        moreover have "m2 x = mem st x" if "x \<notin> run_of params 4096 \<union> run_of at (length bs)" for x
          using same_outside_run [OF out, of x] mem_write_run [of x at bs "mem st"] that by (simp add: m1_def)
        ultimately show ?thesis
          using l f1 Some r bs by (intro exI [of _ "Some (at, bs)"]) (auto simp: st')
      qed
    qed
  qed
qed

section \<open>The stages of a boot\<close>

text \<open>Memory that was handed out before a stage that writes only new pages is kept by it.\<close>

lemma new_only_read:
  assumes "new_only owned s s'" and "run_of a n \<subseteq> owned (fw s)" and "n < 2 ^ 64"
  shows "mem_read (mem s') a n = mem_read (mem s) a n"
  using assms by (intro mem_read_run) (auto simp: new_only_def)

lemma read_file_stage:
  assumes "linux_contract F owned" and "read_file F p (fw st) = (r, f)"
  shows "new_only owned st (st\<lparr>fw := f\<rparr>)"
  using read_file_result(1) [OF assms] by (intro new_only_grow) simp_all

lemma kernel_stage:
  assumes "linux_contract F owned" and "length img < 2 ^ 62" and "kernel_place F img st = (Some km, s2)"
    and "s3 = s2\<lparr>mem := copy_kernel img km (mem s2)\<rparr>"
  shows "new_only owned st s3" and "run_of km (kernel_need img) \<subseteq> owned (fw s3)"
    and "mem_read (mem s3) km (kernel_need img) =
      kernel_bytes img @ replicate (kernel_need img - length (kernel_bytes img)) 0"
proof -
  note r = kernel_place_run [OF assms(1-3)]
  show "new_only owned st s3" unfolding assms(4)
    by (rule new_only_write [OF new_only_grow [OF r(2) r(3)] r(1)]) (rule copy_kernel_outside [OF assms(2)])
  show "run_of km (kernel_need img) \<subseteq> owned (fw s3)" using r(1) by (auto simp: assms(4))
  show "mem_read (mem s3) km (kernel_need img) =
      kernel_bytes img @ replicate (kernel_need img - length (kernel_bytes img)) 0"
    by (simp add: assms(4) copy_kernel_read [OF assms(2)])
qed

lemma params_stage:
  assumes "linux_contract F owned" and "alloc_low F 4096 st = (Some params, s2)"
    and "s3 = s2\<lparr>mem := copy_header img params (mem s2)\<rparr>"
  shows "new_only owned st s3" and "run_of params 4096 \<subseteq> owned (fw s3) - owned (fw st)"
    and "page params (mem s3) = header_page img" and "unat params + 4096 \<le> 2 ^ 32"
proof -
  have "(4096 :: nat) < 2 ^ 63" by simp
  note r = alloc_low_run [OF assms(1) this assms(2)]
  show "new_only owned st s3" unfolding assms(3)
    by (rule new_only_write [OF new_only_grow [OF r(3) r(4)] r(1)])
      (rule same_outside_run [OF copy_header_outside])
  show "run_of params 4096 \<subseteq> owned (fw s3) - owned (fw st)" using r(1) by (simp add: assms(3))
  show "page params (mem s3) = header_page img" by (simp add: assms(3) copy_header_page)
  show "unat params + 4096 \<le> 2 ^ 32" by (rule r(2))
qed

definition write_cmdline :: "u64 \<Rightarrow> u64 \<Rightarrow> ustr \<Rightarrow> memory \<Rightarrow> memory" where
  "write_cmdline params cmd cl m =
     (let m = mem_write m cmd (utf8_encode cl);
          m = mem_write m (cmd + of_nat (str_len cl)) [0]
      in put_u32 params CMD_LINE_PTR (ucast cmd) m)"

lemma write_cmdline:
  assumes "str_len cl < 2 ^ 63" and "run_of params 4096 \<inter> run_of cmd (str_len cl + 1) = {}"
  shows "page params (write_cmdline params cmd cl m) =
      splice (page params m) CMD_LINE_PTR (to_le 4 (ucast cmd :: u32))"
    and "mem_read (write_cmdline params cmd cl m) cmd (str_len cl + 1) = utf8_encode cl @ [0]"
    and "x \<notin> run_of params 4096 \<union> run_of cmd (str_len cl + 1) \<Longrightarrow> write_cmdline params cmd cl m x = m x"
proof -
  let ?bs = "utf8_encode cl @ [0]"
  have len: "length (utf8_encode cl) = str_len cl" by (simp add: str_len_def)
  have w: "write_cmdline params cmd cl m = put_u32 params CMD_LINE_PTR (ucast cmd) (mem_write m cmd ?bs)"
    using mem_write_write [of "utf8_encode cl" "[0]" m cmd] assms(1) len
    by (simp add: write_cmdline_def)
  have k: "CMD_LINE_PTR + 4 \<le> 4096" by (simp add: header_offsets)
  have d: "run_of params 4096 \<inter> run_of cmd (length ?bs) = {}" using assms(2) len by simp
  note out = same_outside_run [OF put_u32_outside [OF k, of params "mem_write m cmd ?bs" "ucast cmd"]]
  show "page params (write_cmdline params cmd cl m) =
      splice (page params m) CMD_LINE_PTR (to_le 4 (ucast cmd :: u32))"
    by (simp add: w put_u32_page [OF k] page_away [OF d])
  have "mem_read (write_cmdline params cmd cl m) cmd (length ?bs) = mem_read (mem_write m cmd ?bs) cmd (length ?bs)"
    unfolding w using d out assms(1) len by (intro mem_read_run) auto
  also have "\<dots> = ?bs" using assms(1) len by (intro mem_read_write_same) simp
  finally show "mem_read (write_cmdline params cmd cl m) cmd (str_len cl + 1) = utf8_encode cl @ [0]"
    using len by simp
  show "write_cmdline params cmd cl m x = m x" if "x \<notin> run_of params 4096 \<union> run_of cmd (str_len cl + 1)"
    using out [of x] mem_write_run [of x cmd ?bs m] that len by (simp add: w)
qed

text \<open>The rest, once the page is there: the command line, the ramdisk and the last fields.\<close>

definition fill_params :: "'f firmware \<Rightarrow> cstr16 option \<Rightarrow> u64 \<Rightarrow> u64 \<Rightarrow> ustr \<Rightarrow> u64 \<Rightarrow> 'f mach \<Rightarrow> 'f mach" where
  "fill_params F po params cmd cl km st =
     (let st = place_initrd F po params (st\<lparr>mem := write_cmdline params cmd cl (mem st)\<rparr>)
      in st\<lparr>mem := finish_params params km (mem st)\<rparr>)"

definition initrd_ok :: "('f \<Rightarrow> u64 set) \<Rightarrow> 'f firmware \<Rightarrow> cstr16 option \<Rightarrow> 'f mach \<Rightarrow> 'f mach \<Rightarrow> (u64 \<times> bytes) option \<Rightarrow> bool" where
  "initrd_ok owned F po st st' ird = (case ird of
     None \<Rightarrow> True
   | Some (at, bs) \<Rightarrow>
       (\<exists>p. po = Some p \<and> fst (read_file F p (fw st)) = Some bs) \<and>
       run_of at (length bs) \<subseteq> owned (fw st') \<and>
       unat at + length bs \<le> 2 ^ 32 \<and> mem_read (mem st') at (length bs) = bs)"

lemma fill_params:
  assumes c: "linux_contract F owned" and p: "run_of params 4096 \<subseteq> owned (fw st)"
    and k: "run_of cmd (str_len cl + 1) \<subseteq> owned (fw st)"
    and d: "run_of params 4096 \<inter> run_of cmd (str_len cl + 1) = {}" and len: "str_len cl < 2 ^ 62"
    and st': "st' = fill_params F po params cmd cl km st"
  obtains ird where "page params (mem st') = finish_page km (ramdisk_page ird
        (splice (page params (mem st)) CMD_LINE_PTR (to_le 4 (ucast cmd :: u32))))"
    and "mem_read (mem st') cmd (str_len cl + 1) = utf8_encode cl @ [0]"
    and "initrd_ok owned F po st st' ird" and "owned (fw st) \<subseteq> owned (fw st')"
    and "\<And>x. x \<notin> run_of params 4096 \<union> run_of cmd (str_len cl + 1) \<union> (owned (fw st') - owned (fw st)) \<Longrightarrow>
      mem st' x = mem st x"
proof -
  let ?P = "run_of params 4096" and ?C = "run_of cmd (str_len cl + 1)"
  define s1 where "s1 = st\<lparr>mem := write_cmdline params cmd cl (mem st)\<rparr>"
  define s2 where "s2 = place_initrd F po params s1"
  have st2: "fw st' = fw s2" "mem st' = finish_params params km (mem s2)"
    by (simp_all add: st' fill_params_def Let_def s1_def s2_def)
  have len': "str_len cl < 2 ^ 63" using len by simp
  note w = write_cmdline [OF len' d]
  have fs1: "fw s1 = fw st" by (simp add: s1_def)
  have "run_of params 4096 \<subseteq> owned (fw s1)" using p by (simp add: s1_def)
  from place_initrd_result [OF c this s2_def] obtain ird where
    pg: "page params (mem s2) = ramdisk_page ird (page params (mem s1))"
    and own: "owned (fw st) \<subseteq> owned (fw s2)"
    and ird: "case ird of
       None \<Rightarrow> mem s2 = mem s1
     | Some (at, bs) \<Rightarrow> (\<exists>p. po = Some p \<and> fst (read_file F p (fw st)) = Some bs) \<and>
         run_of at (length bs) \<subseteq> owned (fw s2) - owned (fw st) \<and>
         unat at + length bs \<le> 2 ^ 32 \<and> mem_read (mem s2) at (length bs) = bs \<and>
         (\<forall>x. x \<notin> ?P \<union> run_of at (length bs) \<longrightarrow> mem s2 x = mem s1 x)"
    unfolding fs1 by (elim exE conjE) (rule that)
  note out = same_outside_run [OF finish_params_outside [of params "mem s2" km], folded st2(2)]
  have s2: "mem s2 x = mem s1 x" if "x \<notin> ?P" "x \<notin> owned (fw s2) - owned (fw st)" for x
    using ird that by (auto split: option.splits)
  have C: "mem st' x = mem s1 x" if "x \<in> ?C" for x
  proof -
    have "x \<notin> ?P" "x \<in> owned (fw st)" using that d k by blast+
    then show ?thesis using out [of x] s2 [of x] by simp
  qed
  show thesis
  proof (rule that [of ird])
    show "page params (mem st') = finish_page km (ramdisk_page ird
        (splice (page params (mem st)) CMD_LINE_PTR (to_le 4 (ucast cmd :: u32))))"
      by (simp add: st2(2) finish_params_page pg s1_def w(1))
    have "mem_read (mem st') cmd (str_len cl + 1) = mem_read (mem s1) cmd (str_len cl + 1)"
      using C len by (intro mem_read_run) auto
    also have "\<dots> = utf8_encode cl @ [0]" using w(2) by (simp add: s1_def)
    finally show "mem_read (mem st') cmd (str_len cl + 1) = utf8_encode cl @ [0]" .
    show "initrd_ok owned F po st st' ird"
    proof (cases ird)
      case (Some ab)
      obtain at bs where ab: "ird = Some (at, bs)" by (cases ab) (simp add: Some)
      have r: "run_of at (length bs) \<subseteq> owned (fw s2) - owned (fw st)" "unat at + length bs \<le> 2 ^ 32"
        "mem_read (mem s2) at (length bs) = bs"
        using ird by (simp_all add: ab)
      have "mem_read (mem st') at (length bs) = mem_read (mem s2) at (length bs)"
        using r(1,2) p out by (intro mem_read_run) auto
      with r ird show ?thesis by (auto simp: initrd_ok_def ab st2(1))
    qed (simp add: initrd_ok_def)
    show "owned (fw st) \<subseteq> owned (fw st')" using own by (simp add: st2)
    show "mem st' x = mem st x" if "x \<notin> ?P \<union> ?C \<union> (owned (fw st') - owned (fw st))" for x
      using out [of x] s2 [of x] w(3) [of x "mem st"] that by (simp add: st2(1) s1_def)
  qed
qed

lemma truncate_str_take: "truncate_str n s = Some t \<Longrightarrow> utf8_encode t = take n (utf8_encode s)"
proof (induction n s arbitrary: t rule: truncate_str.induct)
  case (2 n c s)
  then show ?case by (auto simp: utf8_encode_def split: if_splits)
qed (simp_all add: utf8_encode_def split: if_splits)

lemma truncate_str_None: "truncate_str n s = None \<longleftrightarrow> (\<forall>k < Suc (length s). str_len (take k s) \<noteq> n)"
proof (induction n s rule: truncate_str.induct)
  case (1 n)
  then show ?case by (simp add: str_len_def utf8_encode_def)
next
  case (2 n c s)
  have len: "str_len (c # t) = length (utf8_char c) + str_len t" for t
    by (simp add: str_len_def utf8_encode_def)
  have z: "str_len [] = 0" by (simp add: str_len_def utf8_encode_def)
  show ?case
  proof (cases "n = 0")
    case True
    then show ?thesis using z by (auto intro: exI [of _ 0])
  next
    case n: False
    have "(\<forall>k < Suc (length (c # s)). str_len (take k (c # s)) \<noteq> n) \<longleftrightarrow>
        (\<forall>k < Suc (length s). length (utf8_char c) + str_len (take k s) \<noteq> n)"
      unfolding list.size add_0_right add_Suc_right All_less_Suc2 using n z by (simp add: len del: All_less_Suc)
    with n 2 show ?thesis by auto
  qed
qed


lemma linux_boot_stages:
  assumes "linux_boot F kp ip cmdline st = (Handover entry params, st')"
  obtains img f1 km s2 s3 s4 s5 cl cmd s6 where
    "read_file F kp (fw st) = (Some img, f1)" and "check_image img = None"
    and "kernel_place F img (st\<lparr>fw := f1\<rparr>) = (Some km, s2)"
    and "s3 = s2\<lparr>mem := copy_kernel img km (mem s2)\<rparr>"
    and "alloc_low F 4096 s3 = (Some params, s4)" and "s5 = s4\<lparr>mem := copy_header img params (mem s4)\<rparr>"
    and "limit_cmdline img cmdline = Some cl" and "alloc_low F (str_len cl + 1) s5 = (Some cmd, s6)"
    and "st' = fill_params F ip params cmd cl km s6"
    and "entry = km + ucast (u32_at img HANDOVER_OFFSET) + HANDOVER_64_OFFSET"
proof -
  obtain r f1 where r: "read_file F kp (fw st) = (r, f1)" by force
  then obtain img where img: "r = Some img" using assms by (cases r) (auto simp: linux_boot_def)
  have ck: "check_image img = None"
    using assms r img by (cases "check_image img") (auto simp: linux_boot_def)
  obtain ko s2 where k: "kernel_place F img (st\<lparr>fw := f1\<rparr>) = (ko, s2)" by force
  then obtain km where km: "ko = Some km" using assms r img ck by (cases ko) (auto simp: linux_boot_def)
  define s3 where "s3 = s2\<lparr>mem := copy_kernel img km (mem s2)\<rparr>"
  obtain po s4 where p: "alloc_low F 4096 s3 = (po, s4)" by force
  note e = r img ck k km s3_def [symmetric] p
  obtain pa where pa: "po = Some pa" using assms by (cases po) (auto simp: linux_boot_def e)
  define s5 where "s5 = s4\<lparr>mem := copy_header img pa (mem s4)\<rparr>"
  obtain cl where cl: "limit_cmdline img cmdline = Some cl"
    using assms by (cases "limit_cmdline img cmdline") (auto simp: linux_boot_def e pa)
  obtain co s6 where c: "alloc_low F (str_len cl + 1) s5 = (co, s6)" by force
  obtain cmd where cmd: "co = Some cmd"
    using assms c by (cases co) (auto simp: linux_boot_def e pa s5_def [symmetric] cl)
  have "entry = km + ucast (u32_at img HANDOVER_OFFSET) + HANDOVER_64_OFFSET \<and> pa = params \<and>
      st' = fill_params F ip params cmd cl km s6"
    using assms c by (auto simp: linux_boot_def e pa s5_def [symmetric] cl cmd fill_params_def write_cmdline_def Let_def)
  then show thesis using that r img ck k km s3_def p pa s5_def cl c cmd by blast
qed

lemma limit_cmdline_le: "limit_cmdline img cl = Some cl' \<Longrightarrow> str_len cl' \<le> str_len cl"
  by (auto simp: limit_cmdline_def Let_def str_len_def dest!: truncate_str_take split: if_splits)

text \<open>What a handover has left behind, for the properties below.\<close>

lemma linux_boot_facts:
  assumes c: "linux_contract F owned" and len: "str_len cmdline < 2 ^ 62"
    and run: "linux_boot F kp ip cmdline st = (Handover entry params, st')"
  obtains img cl km cmd ird f where
    "fst (read_file F kp (fw st)) = Some img" and "check_image img = None"
    and "limit_cmdline img cmdline = Some cl"
    and "entry = km + ucast (u32_at img HANDOVER_OFFSET) + HANDOVER_64_OFFSET"
    and "mem_read (mem st') km (kernel_need img) =
      kernel_bytes img @ replicate (kernel_need img - length (kernel_bytes img)) 0"
    and "page params (mem st') = params_page img cmd ird km"
    and "mem_read (mem st') cmd (str_len cl + 1) = utf8_encode cl @ [0]"
    and "initrd_ok owned F ip f st' ird" and "new_only owned st st'"
    and "unat params + 4096 \<le> 2 ^ 32" and "unat cmd + str_len cl + 1 \<le> 2 ^ 32"
    and "if u8_at img RELOCATABLE = 0 then km = u64_at img PREF_ADDRESS
      else unat km + kernel_need img \<le> 2 ^ 32 \<and>
        (0 < unat (u32_at img KERNEL_ALIGNMENT) \<longrightarrow> unat (u32_at img KERNEL_ALIGNMENT) dvd unat km)"
    and "run_of km (kernel_need img) \<union> run_of params 4096 \<union> run_of cmd (str_len cl + 1) \<subseteq> owned (fw st')"
    and "kernel_need img < 2 ^ 64" and "str_len cl + 1 < 2 ^ 64"
proof -
  from run obtain img f1 km s2 s3 s4 s5 cl cmd s6 where
    r: "read_file F kp (fw st) = (Some img, f1)" and ck: "check_image img = None"
    and k: "kernel_place F img (st\<lparr>fw := f1\<rparr>) = (Some km, s2)"
    and s3: "s3 = s2\<lparr>mem := copy_kernel img km (mem s2)\<rparr>"
    and p: "alloc_low F 4096 s3 = (Some params, s4)" and s5: "s5 = s4\<lparr>mem := copy_header img params (mem s4)\<rparr>"
    and cl: "limit_cmdline img cmdline = Some cl" and a: "alloc_low F (str_len cl + 1) s5 = (Some cmd, s6)"
    and st': "st' = fill_params F ip params cmd cl km s6"
    and en: "entry = km + ucast (u32_at img HANDOVER_OFFSET) + HANDOVER_64_OFFSET"
    by (rule linux_boot_stages)
  have li: "length img < 2 ^ 62" using read_file_result(2) [OF c r] by simp
  have lc: "str_len cl < 2 ^ 62" "str_len cl + 1 < 2 ^ 63" using limit_cmdline_le [OF cl] len by simp_all
  note K = kernel_stage [OF c li k s3] and P = params_stage [OF c p s5] and C = alloc_low_run [OF c lc(2) a]
  have own: "owned (fw s3) \<subseteq> owned (fw s5)" "owned (fw s5) \<subseteq> owned (fw s6)"
    using P(1) C(3) by (auto simp: new_only_def)
  have pC: "run_of params 4096 \<subseteq> owned (fw s6)" "run_of cmd (str_len cl + 1) \<subseteq> owned (fw s6)"
    "run_of params 4096 \<inter> run_of cmd (str_len cl + 1) = {}"
    using P(2) C(1) own by blast+
  from fill_params [OF c pC lc(1) st'] obtain ird where
    i: "page params (mem st') = finish_page km (ramdisk_page ird
        (splice (page params (mem s6)) CMD_LINE_PTR (to_le 4 (ucast cmd :: u32))))"
      "mem_read (mem st') cmd (str_len cl + 1) = utf8_encode cl @ [0]"
      "initrd_ok owned F ip s6 st' ird" "owned (fw s6) \<subseteq> owned (fw st')"
    and i5: "\<And>x. x \<notin> run_of params 4096 \<union> run_of cmd (str_len cl + 1) \<union> (owned (fw st') - owned (fw s6)) \<Longrightarrow>
      mem st' x = mem s6 x"
    by metis
  have no3: "new_only owned s3 st'"
    unfolding new_only_def
  proof (intro conjI allI impI)
    show "owned (fw s3) \<subseteq> owned (fw st')" using own i(4) by blast
    fix x assume x: "x \<notin> owned (fw st') - owned (fw s3)"
    then have "x \<notin> run_of params 4096 \<union> run_of cmd (str_len cl + 1) \<union> (owned (fw st') - owned (fw s6))"
      and "x \<notin> owned (fw s5) - owned (fw s3)"
      using P(2) C(1) own i(4) by blast+
    then show "mem st' x = mem s3 x" using i5 [of x] C(4) P(1) by (simp add: new_only_def)
  qed
  show thesis
  proof (rule that)
    show "fst (read_file F kp (fw st)) = Some img" by (simp add: r)
    show "new_only owned st st'"
      by (rule new_only_trans [OF new_only_trans [OF read_file_stage [OF c r] K(1)] no3])
    show "mem_read (mem st') km (kernel_need img) =
        kernel_bytes img @ replicate (kernel_need img - length (kernel_bytes img)) 0"
      unfolding K(3) [symmetric] using kernel_need_bounds(1) [OF li] by (intro new_only_read [OF no3 K(2)]) simp
    show "page params (mem st') = params_page img cmd ird km" by (simp add: i(1) params_page_def C(4) P(3))
    show "if u8_at img RELOCATABLE = 0 then km = u64_at img PREF_ADDRESS
      else unat km + kernel_need img \<le> 2 ^ 32 \<and>
        (0 < unat (u32_at img KERNEL_ALIGNMENT) \<longrightarrow> unat (u32_at img KERNEL_ALIGNMENT) dvd unat km)"
      using kernel_place_run(4,5) [OF c li k] by simp
    show "unat cmd + str_len cl + 1 \<le> 2 ^ 32" using C(2) by simp
    show "run_of km (kernel_need img) \<union> run_of params 4096 \<union> run_of cmd (str_len cl + 1) \<subseteq> owned (fw st')"
      using K(2) pC(1,2) own i(4) by blast
    show "kernel_need img < 2 ^ 64" using kernel_need_bounds(1) [OF li] by simp
    show "str_len cl + 1 < 2 ^ 64" using lc(1) by simp
  qed (use ck cl en i(2,3) P(4) in auto)
qed

text \<open>Whatever comes of it, only pages handed out on the way are written.\<close>

lemma alloc_low_None_stage:
  "linux_contract F owned \<Longrightarrow> alloc_low F n st = (None, st') \<Longrightarrow> new_only owned st st'"
  by (intro new_only_grow) (auto dest: alloc_low_None)

lemma linux_boot_new_only_fail:
  assumes c: "linux_contract F owned" and run: "linux_boot F kp ip cmdline st = (r, st')"
    and fail: "\<And>entry params. r \<noteq> Handover entry params"
  shows "new_only owned st st'"
proof -
  obtain io f1 where r: "read_file F kp (fw st) = (io, f1)" by force
  note R = read_file_stage [OF c r]
  show ?thesis
  proof (cases "\<exists>img. io = Some img \<and> check_image img = None")
    case False
    then have "st' = st\<lparr>fw := f1\<rparr>"
      using run r by (cases io) (auto simp: linux_boot_def Let_def split: option.splits)
    with R show ?thesis by simp
  next
    case True
    then obtain img where img: "io = Some img" "check_image img = None" by blast
    have li: "length img < 2 ^ 62" using read_file_result(2) [OF c r [unfolded img]] by simp
    obtain ko s2 where k: "kernel_place F img (st\<lparr>fw := f1\<rparr>) = (ko, s2)" by force
    show ?thesis
    proof (cases ko)
      case None
      have "new_only owned (st\<lparr>fw := f1\<rparr>) s2"
        using kernel_place_None [OF c k [unfolded None]] by (intro new_only_grow) auto
      moreover have "st' = s2" using run r img k None by (simp add: linux_boot_def)
      ultimately show ?thesis using new_only_trans [OF R] by simp
    next
      case (Some km)
      define s3 where "s3 = s2\<lparr>mem := copy_kernel img km (mem s2)\<rparr>"
      have K: "new_only owned st s3" by (rule new_only_trans [OF R kernel_stage(1) [OF c li k [unfolded Some] s3_def]])
      obtain po s4 where p: "alloc_low F 4096 s3 = (po, s4)" by force
      note e = r img k Some s3_def [symmetric] p
      show ?thesis
      proof (cases po)
        case None
        have "st' = s4" using run by (simp add: linux_boot_def e None)
        with new_only_trans [OF K alloc_low_None_stage [OF c p [unfolded None]]] show ?thesis by simp
      next
        case pa: (Some params)
        define s5 where "s5 = s4\<lparr>mem := copy_header img params (mem s4)\<rparr>"
        have P: "new_only owned st s5" by (rule new_only_trans [OF K params_stage(1) [OF c p [unfolded pa] s5_def]])
        show ?thesis
        proof (cases "limit_cmdline img cmdline")
          case None
          have "st' = s5" using run by (simp add: linux_boot_def e pa s5_def [symmetric] None)
          with P show ?thesis by simp
        next
          case cl: (Some cl)
          obtain co s6 where a: "alloc_low F (str_len cl + 1) s5 = (co, s6)" by force
          have "co = None" using run fail a
            by (cases co) (auto simp: linux_boot_def Let_def e pa s5_def [symmetric] cl)
          moreover have "st' = s6" if "co = None"
            using run a that by (simp add: linux_boot_def e pa s5_def [symmetric] cl)
          ultimately show ?thesis using new_only_trans [OF P alloc_low_None_stage [OF c]] a by simp
        qed
      qed
    qed
  qed
qed

lemma linux_boot_outcome_new_only:
  assumes c: "linux_contract F owned" and len: "str_len cmdline < 2 ^ 62"
    and run: "linux_boot F kp ip cmdline st = (r, st')"
  shows "new_only owned st st'"
proof (cases r)
  case (Handover entry params)
  with run show ?thesis by (auto intro: linux_boot_facts [OF c len])
qed (use linux_boot_new_only_fail [OF c run] in auto)

section \<open>Reading the fields\<close>

lemma u32_at_splice: "k + 4 \<le> length b \<Longrightarrow> u32_at (splice b k (to_le 4 v)) k = v"
  using buf.slice_put [of k "to_le 4 v" b] by (simp add: u32_at_def)

lemma u32_at_splice_other:
  "k + length bs \<le> length b \<Longrightarrow> i + 4 \<le> length b \<Longrightarrow> i + 4 \<le> k \<or> k + length bs \<le> i \<Longrightarrow>
   u32_at (splice b k bs) i = u32_at b i"
  using buf.slice_put_frame [of k bs b i 4] by (simp add: u32_at_def)

lemma finish_page_fields:
  assumes "length b = 4096"
  shows "length (finish_page km b) = 4096"
    and "u32_at (finish_page km b) CODE32_START = ucast km"
    and "finish_page km b ! TYPE_OF_LOADER = LOADER_UNKNOWN"
    and "finish_page km b ! LOADFLAGS = b ! LOADFLAGS OR LOADFLAG_LOADED_HIGH"
    and "i = CMD_LINE_PTR \<or> i = RAMDISK_IMAGE \<or> i = RAMDISK_SIZE \<Longrightarrow> u32_at (finish_page km b) i = u32_at b i"
    and "TYPE_OF_LOADER \<noteq> j \<Longrightarrow> LOADFLAGS \<noteq> j \<Longrightarrow> j < CODE32_START \<or> CODE32_START + 4 \<le> j \<Longrightarrow> j < 4096 \<Longrightarrow>
      finish_page km b ! j = b ! j"
  using assms
  by (auto simp: finish_page_def Let_def header_offsets u32_at_splice u32_at_splice_other splice_simps)

lemma ramdisk_page_fields:
  assumes "length b = 4096"
  shows "u32_at (ramdisk_page ird b) CMD_LINE_PTR = u32_at b CMD_LINE_PTR"
    and "u32_at (ramdisk_page (Some (at, bs)) b) RAMDISK_IMAGE = ucast at"
    and "u32_at (ramdisk_page (Some (at, bs)) b) RAMDISK_SIZE = of_nat (length bs)"
    and "j < RAMDISK_IMAGE \<or> RAMDISK_SIZE + 4 \<le> j \<Longrightarrow> j < 4096 \<Longrightarrow> ramdisk_page ird b ! j = b ! j"
  using assms
  by (auto simp: ramdisk_page_def header_offsets u32_at_splice u32_at_splice_other splice_simps split: option.split prod.split)

lemma header_page_nth:
  "j < 4096 \<Longrightarrow> header_page img ! j = (if SETUP_SECTS \<le> j \<and> j < hdr_end img then img ! j else 0)"
  using hdr_end_bounds [of img] header_fits [of img]
  by (auto simp: header_page_def splice_simps)

text \<open>The bytes of the page that are the image's own: all but the fields written.\<close>

definition loader_field :: "nat \<Rightarrow> bool" where
  "loader_field j \<longleftrightarrow> j = TYPE_OF_LOADER \<or> j = LOADFLAGS \<or> (CODE32_START \<le> j \<and> j < RAMDISK_SIZE + 4) \<or>
     (CMD_LINE_PTR \<le> j \<and> j < CMD_LINE_PTR + 4)"

lemma params_page_fields:
  shows "u32_at (params_page img cmd ird km) CMD_LINE_PTR = ucast cmd"
    and "u32_at (params_page img cmd ird km) CODE32_START = ucast km"
    and "params_page img cmd ird km ! TYPE_OF_LOADER = LOADER_UNKNOWN"
    and "params_page img cmd ird km ! LOADFLAGS = header_page img ! LOADFLAGS OR LOADFLAG_LOADED_HIGH"
    and "ird = Some (at, bs) \<Longrightarrow> u32_at (params_page img cmd ird km) RAMDISK_IMAGE = ucast at \<and>
      u32_at (params_page img cmd ird km) RAMDISK_SIZE = of_nat (length bs)"
    and "ird = None \<Longrightarrow> u32_at (params_page img cmd ird km) RAMDISK_IMAGE = u32_at (header_page img) RAMDISK_IMAGE \<and>
      u32_at (params_page img cmd ird km) RAMDISK_SIZE = u32_at (header_page img) RAMDISK_SIZE"
    and "j < 4096 \<Longrightarrow> \<not> loader_field j \<Longrightarrow> params_page img cmd ird km ! j = header_page img ! j"
proof -
  let ?c = "splice (header_page img) CMD_LINE_PTR (to_le 4 (ucast cmd :: u32))"
  let ?r = "ramdisk_page ird ?c"
  have c: "length ?c = 4096" "u32_at ?c CMD_LINE_PTR = ucast cmd"
    by (simp_all add: header_offsets u32_at_splice)
  then have r: "length ?r = 4096" by simp
  note f = finish_page_fields [OF r, where km = km, folded params_page_def] and rf = ramdisk_page_fields [OF c(1)]
  show "u32_at (params_page img cmd ird km) CMD_LINE_PTR = ucast cmd"
    using f(5) [of CMD_LINE_PTR] rf(1) c(2) by simp
  show "u32_at (params_page img cmd ird km) CODE32_START = ucast km"
    and "params_page img cmd ird km ! TYPE_OF_LOADER = LOADER_UNKNOWN" by (rule f)+
  have l: "?c ! LOADFLAGS = header_page img ! LOADFLAGS" by (simp add: header_offsets splice_simps)
  show "params_page img cmd ird km ! LOADFLAGS = header_page img ! LOADFLAGS OR LOADFLAG_LOADED_HIGH"
    using f(4) rf(4) [of LOADFLAGS ird] l by (simp add: header_offsets)
  show "u32_at (params_page img cmd ird km) RAMDISK_IMAGE = ucast at \<and>
      u32_at (params_page img cmd ird km) RAMDISK_SIZE = of_nat (length bs)" if "ird = Some (at, bs)"
    using f(5) [of RAMDISK_IMAGE] f(5) [of RAMDISK_SIZE] rf(2,3) [of at bs] that by simp
  show "u32_at (params_page img cmd ird km) RAMDISK_IMAGE = u32_at (header_page img) RAMDISK_IMAGE \<and>
      u32_at (params_page img cmd ird km) RAMDISK_SIZE = u32_at (header_page img) RAMDISK_SIZE" if "ird = None"
    using f(5) [of RAMDISK_IMAGE] f(5) [of RAMDISK_SIZE] that
    by (simp add: ramdisk_page_def u32_at_splice_other header_offsets)
  show "params_page img cmd ird km ! j = header_page img ! j" if j: "j < 4096" "\<not> loader_field j"
  proof -
    have "params_page img cmd ird km ! j = ?r ! j" using j by (intro f(6)) (auto simp: loader_field_def header_offsets)
    also have "\<dots> = ?c ! j" using j by (intro rf(4)) (auto simp: loader_field_def header_offsets)
    also have "\<dots> = header_page img ! j" using j by (auto simp: loader_field_def header_offsets splice_simps)
    finally show ?thesis .
  qed
qed

section \<open>A concrete kernel\<close>

definition demo_bzimage :: bytes where
  "demo_bzimage = replicate 497 0 @ [1] @ replicate 12 0 @ [0x55, 0xAA, 0, 0x66, 0x48, 0x64, 0x72, 0x53, 0x0B, 0x02] @
     replicate 40 0 @ [0, 0x10, 0, 0, 1, 0, 8, 0, 0, 0, 0, 0] @ replicate 36 0 @ [0, 0x20, 0, 0, 0x10, 0, 0, 0] @
     replicate 3480 0"

lemma length_demo_bzimage [simp]: "length demo_bzimage = 4096"
  by (simp add: demo_bzimage_def)

lemma demo_bzimage_fields:
  "check_image demo_bzimage = None" "u32_at demo_bzimage CMDLINE_SIZE = 0"
  "unat (u32_at demo_bzimage INIT_SIZE) = 8192" "unat (u32_at demo_bzimage KERNEL_ALIGNMENT) = 4096"
  "u8_at demo_bzimage RELOCATABLE = 1" "kernel_offset demo_bzimage = 1024" "u32_at demo_bzimage HANDOVER_OFFSET = 16"
  by (simp_all add: check_image_def u16_at_def u32_at_def u8_at_def slice_def demo_bzimage_def header_offsets
      kernel_offset_def setup_sects_def BOOT_FLAG_MAGIC_def HDRS_MAGIC_def MIN_VERSION_def XLF_EFI_HANDOVER_64_def
      nth_append)

lemma demo_linux_contract: "length bs < 2 ^ 62 \<Longrightarrow> linux_contract (demo_fw_file bs) granted"
  using demo_file_contracts(1,2) [of bs] demo_file_contracts(3) [of bs granted]
  by (auto simp: linux_contract_def demo_fw_file_def unat_offset)

lemma demo_read_file:
  assumes "length bs < 2 ^ 62"
  shows "read_file (demo_fw_file bs) p f = (Some bs, f)"
proof -
  have "unat (of_nat (length bs) :: u64) = length bs" using assms by (intro unat_offset) simp
  then show ?thesis
    by (simp add: read_file_def demo_fw_file_def demo_fw_def read_all.simps [where acc = "[]"])
      (simp add: read_all.simps)
qed

lemma demo_linux_grants:
  assumes "str_len q = 5"
  shows "\<exists>st'. linux_boot (demo_fw_file demo_bzimage) (lit16 ''k'') (Some (lit16 ''i'')) q demo_mach =
     (Handover 0xFFFFD210 0xFFFFC000, st') \<and>
     fw st' = [(0xFFFFA000, 1), (0xFFFFB000, 1), (0xFFFFC000, 1), (0xFFFFD000, 3)]"
proof -
  have need: "kernel_need demo_bzimage = 8192" by (simp add: kernel_need_def kernel_bytes_def demo_bzimage_fields)
  have cl: "limit_cmdline demo_bzimage c = Some c" for c by (simp add: limit_cmdline_def demo_bzimage_fields)
  have al: "allocate_pages (demo_fw_file bs) = grant" for bs by (simp add: demo_fw_file_def demo_fw_def)
  note g = alloc_low_def al demo_mach_def Let_def grant_at_def meets_def in_range_def div_ceil_def
  show ?thesis
    by (simp add: linux_boot_def demo_read_file demo_bzimage_fields kernel_place_def need cl assms)
      (simp add: g next_multiple_of_def HANDOVER_64_OFFSET_def cl assms demo_bzimage_fields place_initrd_def demo_read_file)
qed

lemma demo_linux_boot:
  "\<exists>st'. linux_boot (demo_fw_file demo_bzimage) (lit16 ''k'') (Some (lit16 ''i'')) (lit ''quiet'') demo_mach =
     (Handover 0xFFFFD210 0xFFFFC000, st')"
proof -
  have "str_len (lit ''quiet'') = 5" by (subst str_len_ascii) (simp_all add: lit_def)
  from demo_linux_grants [OF this] show ?thesis by blast
qed

text \<open>An address below 4 GiB survives being kept in 32 bits.\<close>

lemma low_pointer: "unat a < 2 ^ 32 \<Longrightarrow> (ucast (ucast a :: u32) :: u64) = a"
  by (simp add: word_unat_eq_iff unat_narrow32)

lemma initrd_fields:
  assumes "initrd_ok owned F ip f st' (Some (at, bs))" and "u32_at b RAMDISK_IMAGE = ucast at"
  shows "(\<exists>p. ip = Some p \<and> fst (read_file F p (fw f)) = Some bs) \<and>
    mem_read (mem st') (ucast (u32_at b RAMDISK_IMAGE)) (length bs) = bs"
proof (cases "bs = []")
  case False
  then have "unat at < 2 ^ 32" using assms(1) by (cases bs) (auto simp: initrd_ok_def)
  with assms show ?thesis by (simp add: initrd_ok_def low_pointer)
qed (use assms in \<open>simp add: initrd_ok_def mem_read_def\<close>)

lemma kernel_bytes_read:
  assumes "mem_read m km (kernel_need img) = kernel_bytes img @ zs"
  shows "mem_read m km (length (kernel_bytes img)) = kernel_bytes img"
proof -
  have "length (kernel_bytes img) \<le> kernel_need img" by (simp add: kernel_need_def)
  then have "mem_read m km (length (kernel_bytes img)) = take (length (kernel_bytes img)) (mem_read m km (kernel_need img))"
    by (simp add: mem_read_def take_map)
  with assms show ?thesis by simp
qed

lemma check_image_kernel: "check_image img = None \<Longrightarrow> 0 < kernel_need img"
  by (auto simp: check_image_def kernel_need_def kernel_bytes_def split: if_splits)

section \<open>Properties\<close>

text \<open>
  What a handover leaves in memory, as \<open>boot\<close> ends. The kernel's region holds the part of the file after the
  setup sectors and zeros up to what it asked for; \<open>boot_params\<close> is the page computed from the
  image's header and the addresses; the command line, cut to the kernel's limit, stands
  NUL-terminated at its address, and the ramdisk, if it could be read and placed, at its own. The
  entry is 512 bytes past the image's handover offset.
\<close>

theorem linux_boot_handover:
  assumes "linux_contract F owned" and "str_len cmdline < 2 ^ 62"
    and "linux_boot F kp ip cmdline st = (Handover entry params, st')"
  shows "\<exists>img cl km cmd ird f.
    fst (read_file F kp (fw st)) = Some img \<and> check_image img = None \<and> limit_cmdline img cmdline = Some cl \<and>
    entry = km + ucast (u32_at img HANDOVER_OFFSET) + HANDOVER_64_OFFSET \<and>
    mem_read (mem st') km (kernel_need img) =
      kernel_bytes img @ replicate (kernel_need img - length (kernel_bytes img)) 0 \<and>
    page params (mem st') = params_page img cmd ird km \<and>
    mem_read (mem st') cmd (str_len cl + 1) = utf8_encode cl @ [0] \<and> initrd_ok owned F ip f st' ird"
  by (rule linux_boot_facts [OF assms]) blast

theorem linux_boot_handover_witness:
  "\<exists>st' img cl km cmd ird f.
    linux_boot (demo_fw_file demo_bzimage) (lit16 ''k'') (Some (lit16 ''i'')) (lit ''quiet'') demo_mach =
      (Handover 0xFFFFD210 0xFFFFC000, st') \<and>
    mem_read (mem st') km (kernel_need img) =
      kernel_bytes img @ replicate (kernel_need img - length (kernel_bytes img)) 0 \<and>
    page 0xFFFFC000 (mem st') = params_page img cmd ird km \<and>
    mem_read (mem st') cmd (str_len cl + 1) = utf8_encode cl @ [0] \<and>
    initrd_ok granted (demo_fw_file demo_bzimage) (Some (lit16 ''i'')) f st' ird"
proof -
  obtain st' where run: "linux_boot (demo_fw_file demo_bzimage) (lit16 ''k'') (Some (lit16 ''i'')) (lit ''quiet'') demo_mach =
      (Handover 0xFFFFD210 0xFFFFC000, st')"
    using demo_linux_boot by blast
  have "str_len (lit ''quiet'') < 2 ^ 62" by (subst str_len_ascii) (simp_all add: lit_def)
  from linux_boot_handover [OF demo_linux_contract this run] run show ?thesis by fastforce
qed




lemma of_le_zeros: "of_le (replicate n 0) = (0 :: 'a::len word)"
  by (induction n) simp_all


text \<open>
  C16: memory safety of the Linux path. However a boot ends, with a refusal half way or with the
  handover, every byte that has changed is in a page the firmware handed out during this boot.
\<close>

theorem linux_boot_writes_new_pages:
  assumes "linux_contract F owned" and "str_len cmdline < 2 ^ 62"
    and "linux_boot F kp ip cmdline st = (r, st')" and "x \<notin> owned (fw st') - owned (fw st)"
  shows "mem st' x = mem st x"
  using linux_boot_outcome_new_only [OF assms(1-3)] assms(4) by (simp add: new_only_def)

theorem linux_boot_writes_new_pages_witness:
  "\<exists>r st'. linux_boot (demo_fw_file demo_bzimage) [] None [] demo_mach = (r, st') \<and>
    (\<forall>x. x \<notin> granted (fw st') \<longrightarrow> mem st' x = 0)"
proof -
  obtain r st' where run: "linux_boot (demo_fw_file demo_bzimage) [] None [] demo_mach = (r, st')" by force
  have "str_len [] < 2 ^ 62" by (simp add: str_len_def utf8_encode_def)
  from linux_boot_writes_new_pages [OF demo_linux_contract this run] run show ?thesis
    by (auto simp: demo_mach_def)
qed

text \<open>
  C30: the command line's limit. Within the kernel's \<open>cmdline_size\<close> (zero for none) the line is
  passed whole, beyond it the first \<open>cmdline_size\<close> bytes are; and the cut fails, a panic, exactly
  when it would fall inside a character.
\<close>

theorem limit_cmdline_spec:
  "case limit_cmdline img cl of
     Some cl' \<Rightarrow> utf8_encode cl' =
       (if unat (u32_at img CMDLINE_SIZE) = 0 then utf8_encode cl
        else take (unat (u32_at img CMDLINE_SIZE)) (utf8_encode cl))
   | None \<Rightarrow> 0 < unat (u32_at img CMDLINE_SIZE) \<and> unat (u32_at img CMDLINE_SIZE) < str_len cl \<and>
       unat (u32_at img CMDLINE_SIZE) \<notin> (\<lambda>k. str_len (take k cl)) ` {..<Suc (length cl)}"
proof -
  let ?n = "unat (u32_at img CMDLINE_SIZE)"
  show ?thesis
  proof (cases "0 < ?n \<and> ?n < str_len cl")
    case False
    then show ?thesis by (auto simp: limit_cmdline_def str_len_def)
  next
    case True
    then have "limit_cmdline img cl = truncate_str ?n cl" by (simp add: limit_cmdline_def)
    with True show ?thesis
      using truncate_str_take [of ?n cl] truncate_str_None [of ?n cl]
      by (cases "truncate_str ?n cl") (auto simp del: All_less_Suc)
  qed
qed

end
