(* ===== verification/Discover.thy ===== *)
theory Discover
  imports DemoFirmware
begin

text \<open>
  \<open>discover.rs\<close>: looking for loaders on every volume the firmware can see. The handles a scan holds
  are the firmware's; \<open>up\<close> stands for the upper-case table of the Unicode database beyond ASCII,
  which \<open>char::to_uppercase\<close> is generated from.
\<close>

declare lit_Cons [simp del] lit16_Cons [simp del]

section \<open>Text\<close>

definition ascii_upper :: "scalar \<Rightarrow> scalar" where
  "ascii_upper c = (if 97 \<le> c \<and> c \<le> 122 then c - 32 else c)"

definition to_ascii_uppercase :: "ustr \<Rightarrow> ustr" where
  "to_ascii_uppercase s = map ascii_upper s"

definition eq_ignore_ascii_case :: "ustr \<Rightarrow> ustr \<Rightarrow> bool" where
  "eq_ignore_ascii_case s t \<longleftrightarrow> to_ascii_uppercase s = to_ascii_uppercase t"

definition ends_with :: "ustr \<Rightarrow> ustr \<Rightarrow> bool" where
  "ends_with s t \<longleftrightarrow> length t \<le> length s \<and> drop (length s - length t) s = t"

definition to_uppercase :: "(scalar \<Rightarrow> ustr) \<Rightarrow> scalar \<Rightarrow> ustr" where
  "to_uppercase up c = (if c < 0x80 then [ascii_upper c] else up c)"

section \<open>What is looked for\<close>

record found =
  found_title :: ustr
  found_device :: handle
  found_path :: cstr16

definition sep :: cstr16 where
  "sep = lit16 [CHR 0x5C]"

definition EFI_DIR :: cstr16 where
  "EFI_DIR = sep @ lit16 ''EFI''"

definition WINDOWS :: cstr16 where
  "WINDOWS = EFI_DIR @ sep @ lit16 ''Microsoft'' @ sep @ lit16 ''Boot'' @ sep @ lit16 ''bootmgfw.efi''"

definition LOADERS :: "cstr16 list" where
  "LOADERS = [lit16 ''shimx64.efi'', lit16 ''grubx64.efi'', lit16 ''systemd-bootx64.efi'',
     lit16 ''refind_x64.efi'', lit16 ''BOOTX64.EFI'']"

section \<open>Looking\<close>

definition own_image :: "'f firmware \<Rightarrow> 'f \<Rightarrow> (handle \<times> cstr16) option \<times> 'f" where
  "own_image F f =
     (case open_loaded_image F f of
        (None, f) \<Rightarrow> (None, f)
      | (Some loaded, f) \<Rightarrow>
          (case li_device loaded of
             None \<Rightarrow> (None, f)
           | Some device \<Rightarrow>
               (case li_file_path loaded of
                  None \<Rightarrow> (None, f)
                | Some p \<Rightarrow> (map_option (\<lambda>t. (device, t)) (dp_text F p), f))))"

definition file_exists :: "'f firmware \<Rightarrow> handle \<Rightarrow> cstr16 \<Rightarrow> 'f \<Rightarrow> bool \<times> 'f" where
  "file_exists F root p f =
     (case dir_open F root p f of
        (None, f) \<Rightarrow> (False, f)
      | (Some h, f) \<Rightarrow>
          (case into_type F h f of
             (Some (Regular _), f) \<Rightarrow> (True, f)
           | (_, f) \<Rightarrow> (False, f)))"

definition same_file :: "'f firmware \<Rightarrow> cstr16 \<Rightarrow> cstr16 \<Rightarrow> bool" where
  "same_file F device_path_text file =
     ends_with (to_ascii_uppercase (cstr16_text F device_path_text)) (to_ascii_uppercase (cstr16_text F file))"

definition pretty :: "'f firmware \<Rightarrow> (scalar \<Rightarrow> ustr) \<Rightarrow> cstr16 \<Rightarrow> cstr16 \<Rightarrow> ustr" where
  "pretty F up vendor loader =
     (let file = cstr16_text F loader; name = cstr16_text F vendor
      in if eq_ignore_ascii_case file (lit ''systemd-bootx64.efi'') then lit ''systemd-boot''
         else if eq_ignore_ascii_case file (lit ''refind_x64.efi'') then lit ''rEFInd''
         else if eq_ignore_ascii_case name (lit ''BOOT'') then lit ''EFI default loader''
         else (case name of [] \<Rightarrow> [] | first # chars \<Rightarrow> to_uppercase up first @ chars))"

definition loader_path :: "cstr16 \<Rightarrow> cstr16 \<Rightarrow> cstr16" where
  "loader_path vendor loader = EFI_DIR @ sep @ vendor @ sep @ loader"

definition is_own :: "'f firmware \<Rightarrow> (handle \<times> cstr16) option \<Rightarrow> handle \<Rightarrow> cstr16 \<Rightarrow> bool" where
  "is_own F own device p = (case own of None \<Rightarrow> False | Some (d, q) \<Rightarrow> d = device \<and> same_file F q p)"

fun try_loaders :: "'f firmware \<Rightarrow> (scalar \<Rightarrow> ustr) \<Rightarrow> handle \<Rightarrow> handle \<Rightarrow> (handle \<times> cstr16) option \<Rightarrow> cstr16 \<Rightarrow>
    cstr16 list \<Rightarrow> found list \<Rightarrow> 'f \<Rightarrow> found list \<times> 'f" where
  "try_loaders F up device root own vendor [] out f = (out, f)"
| "try_loaders F up device root own vendor (loader # loaders) out f =
     (let p = loader_path vendor loader in
      case file_exists F root p f of
        (False, f) \<Rightarrow> try_loaders F up device root own vendor loaders out f
      | (True, f) \<Rightarrow>
          if is_own F own device p then (out, f)
          else (out @ [\<lparr>found_title = pretty F up vendor loader, found_device = device, found_path = p\<rparr>], f))"

definition skipped_name :: "cstr16 \<Rightarrow> bool" where
  "skipped_name name \<longleftrightarrow> name = lit16 ''.'' \<or> name = lit16 ''..'' \<or> name = lit16 ''Microsoft''"

partial_function (option) probe_loop :: "'f firmware \<Rightarrow> (scalar \<Rightarrow> ustr) \<Rightarrow> handle \<Rightarrow> handle \<Rightarrow> handle \<Rightarrow>
    (handle \<times> cstr16) option \<Rightarrow> nat \<Rightarrow> found list \<Rightarrow> 'f \<Rightarrow> (found list \<times> 'f) option" where
  "probe_loop F up device root efi own buf out f =
     (case read_entry F efi buf f of
        (EntryOk (Some entry), f) \<Rightarrow>
          if \<not> is_directory entry \<or> skipped_name (file_name entry) then
            probe_loop F up device root efi own buf out f
          else
            (case try_loaders F up device root own (file_name entry) LOADERS out f of
               (out, f) \<Rightarrow> probe_loop F up device root efi own buf out f)
      | (EntryOk None, f) \<Rightarrow> Some (out, f)
      | (EntryErr err (Some needed), f) \<Rightarrow>
          if err = BUFFER_TOO_SMALL then probe_loop F up device root efi own (unat needed) out f
          else Some (out, f)
      | (EntryErr err None, f) \<Rightarrow> Some (out, f))"

definition open_efi :: "'f firmware \<Rightarrow> handle \<Rightarrow> 'f \<Rightarrow> handle option \<times> 'f" where
  "open_efi F root f =
     (case dir_open F root EFI_DIR f of
        (None, f) \<Rightarrow> (None, f)
      | (Some h, f) \<Rightarrow>
          (case into_type F h f of
             (Some (Dir efi), f) \<Rightarrow> (Some efi, f)
           | (_, f) \<Rightarrow> (None, f)))"

definition probe :: "'f firmware \<Rightarrow> (scalar \<Rightarrow> ustr) \<Rightarrow> handle \<Rightarrow> handle \<Rightarrow> (handle \<times> cstr16) option \<Rightarrow>
    found list \<Rightarrow> 'f \<Rightarrow> (found list \<times> 'f) option" where
  "probe F up device root own out f =
     (case file_exists F root WINDOWS f of
        (windows, f) \<Rightarrow>
          let out = (if windows then out @ [\<lparr>found_title = lit ''Windows Boot Manager'', found_device = device,
                                             found_path = WINDOWS\<rparr>] else out)
          in (case open_efi F root f of
                (None, f) \<Rightarrow> Some (out, f)
              | (Some efi, f) \<Rightarrow> probe_loop F up device root efi own 512 out f))"

fun scan_volumes :: "'f firmware \<Rightarrow> (scalar \<Rightarrow> ustr) \<Rightarrow> (handle \<times> cstr16) option \<Rightarrow> handle list \<Rightarrow>
    found list \<Rightarrow> 'f \<Rightarrow> (found list \<times> 'f) option" where
  "scan_volumes F up own [] out f = Some (out, f)"
| "scan_volumes F up own (device # devices) out f =
     (case open_file_system F device f of
        (None, f) \<Rightarrow> scan_volumes F up own devices out f
      | (Some fs, f) \<Rightarrow>
     (case open_volume F fs f of
        (None, f) \<Rightarrow> scan_volumes F up own devices out f
      | (Some root, f) \<Rightarrow>
     (case probe F up device root own out f of
        None \<Rightarrow> None
      | Some (out, f) \<Rightarrow> scan_volumes F up own devices out f)))"

definition scan :: "'f firmware \<Rightarrow> (scalar \<Rightarrow> ustr) \<Rightarrow> 'f \<Rightarrow> (found list \<times> 'f) option" where
  "scan F up f =
     (case locate_file_systems F f of
        (None, f) \<Rightarrow> Some ([], f)
      | (Some handles, f) \<Rightarrow>
          (case own_image F f of
             (own, f) \<Rightarrow> scan_volumes F up own handles [] f))"

section \<open>What there is to find\<close>

text \<open>
  A volume as its regular files and, if it has one, its \<open>\EFI\<close> directory; and what is there to be
  found: Windows, and for each vendor's directory the first loader in order of preference, unless
  that is the running image.
\<close>

record volume =
  is_file :: "cstr16 \<Rightarrow> bool"
  efi_dir :: "dirent list option"

definition windows_found :: "handle \<Rightarrow> volume \<Rightarrow> found list" where
  "windows_found device v = (if is_file v WINDOWS
     then [\<lparr>found_title = lit ''Windows Boot Manager'', found_device = device, found_path = WINDOWS\<rparr>] else [])"

definition vendor_found :: "'f firmware \<Rightarrow> (scalar \<Rightarrow> ustr) \<Rightarrow> (handle \<times> cstr16) option \<Rightarrow> handle \<Rightarrow>
    volume \<Rightarrow> cstr16 \<Rightarrow> found list" where
  "vendor_found F up own device v vendor =
     (case find (\<lambda>l. is_file v (loader_path vendor l)) LOADERS of
        None \<Rightarrow> []
      | Some l \<Rightarrow>
          if is_own F own device (loader_path vendor l) then []
          else [\<lparr>found_title = pretty F up vendor l, found_device = device, found_path = loader_path vendor l\<rparr>])"

definition vendors :: "dirent list \<Rightarrow> cstr16 list" where
  "vendors es = map file_name (filter (\<lambda>e. is_directory e \<and> \<not> skipped_name (file_name e)) es)"

definition volume_found :: "'f firmware \<Rightarrow> (scalar \<Rightarrow> ustr) \<Rightarrow> (handle \<times> cstr16) option \<Rightarrow> handle \<Rightarrow>
    volume \<Rightarrow> found list" where
  "volume_found F up own device v = windows_found device v @
     (case efi_dir v of None \<Rightarrow> [] | Some es \<Rightarrow> concat (map (vendor_found F up own device v) (vendors es)))"

text \<open>
  A firmware that shows such volumes: \<open>cursor\<close> is the part of the open directory still to be read
  and \<open>need\<close> the room an entry takes; an entry that does not fit is refused, with the size it needs,
  and stays next.
\<close>

definition serves_dir :: "'f firmware \<Rightarrow> ('f \<Rightarrow> dirent list) \<Rightarrow> (dirent \<Rightarrow> u64) \<Rightarrow> handle \<Rightarrow> bool" where
  "serves_dir F cursor need h \<longleftrightarrow> (\<forall>n f.
     (case cursor f of
        [] \<Rightarrow> fst (read_entry F h n f) = EntryOk None
      | e # es \<Rightarrow>
          if unat (need e) \<le> n then fst (read_entry F h n f) = EntryOk (Some e) \<and> cursor (snd (read_entry F h n f)) = es
          else fst (read_entry F h n f) = EntryErr BUFFER_TOO_SMALL (Some (need e)) \<and>
            cursor (snd (read_entry F h n f)) = e # es))"

definition serves_root :: "'f firmware \<Rightarrow> ('f \<Rightarrow> dirent list) \<Rightarrow> (dirent \<Rightarrow> u64) \<Rightarrow> handle \<Rightarrow> volume \<Rightarrow> bool" where
  "serves_root F cursor need root v \<longleftrightarrow>
     (\<forall>p f. p \<noteq> EFI_DIR \<longrightarrow>
        fst (file_exists F root p f) = is_file v p \<and> cursor (snd (file_exists F root p f)) = cursor f) \<and>
     (\<forall>f. case fst (open_efi F root f) of
        None \<Rightarrow> efi_dir v = None
      | Some h \<Rightarrow> efi_dir v = Some (cursor (snd (open_efi F root f))) \<and> serves_dir F cursor need h)"

definition serves :: "'f firmware \<Rightarrow> ('f \<Rightarrow> dirent list) \<Rightarrow> (dirent \<Rightarrow> u64) \<Rightarrow> (handle \<Rightarrow> volume option) \<Rightarrow> bool" where
  "serves F cursor need vol \<longleftrightarrow> (\<forall>device f.
     (case open_file_system F device f of
        (None, _) \<Rightarrow> vol device = None
      | (Some fs, f) \<Rightarrow>
          (case fst (open_volume F fs f) of
             None \<Rightarrow> vol device = None
           | Some root \<Rightarrow> (case vol device of None \<Rightarrow> False | Some v \<Rightarrow> serves_root F cursor need root v))))"

lemma asked_paths: "loader_path vendor l \<noteq> EFI_DIR" "WINDOWS \<noteq> EFI_DIR"
  by (simp_all add: loader_path_def WINDOWS_def sep_def lit16_def)

lemma try_loaders_find:
  assumes "serves_root F cursor need root v"
  shows "fst (try_loaders F up device root own vendor ls out f) = out @
      (case find (\<lambda>l. is_file v (loader_path vendor l)) ls of
         None \<Rightarrow> []
       | Some l \<Rightarrow>
           if is_own F own device (loader_path vendor l) then []
           else [\<lparr>found_title = pretty F up vendor l, found_device = device, found_path = loader_path vendor l\<rparr>]) \<and>
    cursor (snd (try_loaders F up device root own vendor ls out f)) = cursor f"
proof (induction ls arbitrary: out f)
  case (Cons l ls)
  obtain b f1 where e: "file_exists F root (loader_path vendor l) f = (b, f1)" by force
  have "fst (file_exists F root (loader_path vendor l) f) = is_file v (loader_path vendor l) \<and>
      cursor (snd (file_exists F root (loader_path vendor l) f)) = cursor f"
    using assms asked_paths unfolding serves_root_def by blast
  then have "b = is_file v (loader_path vendor l)" "cursor f1 = cursor f" by (simp_all add: e)
  with Cons.IH [of out f1] show ?case by (cases b) (simp_all add: e Let_def)
qed simp

lemma probe_loop_finds:
  assumes root: "serves_root F cursor need root v" and dir: "serves_dir F cursor need efi"
  shows "\<exists>f'. probe_loop F up device root efi own buf out f =
    Some (out @ concat (map (vendor_found F up own device v) (vendors (cursor f))), f')"
proof (induction "(2 * length (cursor f) + (if cursor f \<noteq> [] \<and> buf < unat (need (hd (cursor f))) then 1 else 0))"
    arbitrary: buf out f rule: less_induct)
  case less
  obtain r f1 where r: "read_entry F efi buf f = (r, f1)" by force
  have d: "case cursor f of
        [] \<Rightarrow> r = EntryOk None
      | e # es \<Rightarrow>
          if unat (need e) \<le> buf then r = EntryOk (Some e) \<and> cursor f1 = es
          else r = EntryErr BUFFER_TOO_SMALL (Some (need e)) \<and> cursor f1 = e # es"
    using dir [unfolded serves_dir_def, THEN spec, THEN spec, of buf f, unfolded r fst_conv snd_conv] .
  show ?case
  proof (cases "cursor f")
    case Nil
    with d r show ?thesis by (subst probe_loop.simps) (simp add: vendors_def)
  next
    case (Cons e es)
    show ?thesis
    proof (cases "unat (need e) \<le> buf")
      case False
      with d Cons have r': "r = EntryErr BUFFER_TOO_SMALL (Some (need e))" "cursor f1 = e # es" by simp_all
      have "\<exists>f'. probe_loop F up device root efi own (unat (need e)) out f1 =
          Some (out @ concat (map (vendor_found F up own device v) (vendors (cursor f1))), f')"
        by (rule less) (simp add: r'(2) Cons not_le [symmetric] False)
      then show ?thesis by (subst probe_loop.simps) (simp add: r r' Cons)
    next
      case True
      with d Cons have r': "r = EntryOk (Some e)" "cursor f1 = es" by simp_all
      have IH: "\<exists>f'. probe_loop F up device root efi own buf out' f2 =
          Some (out' @ concat (map (vendor_found F up own device v) (vendors es)), f')" if "cursor f2 = es" for out' f2
        using less(1) [where f = f2 and buf = buf and out = out'] that by (simp add: Cons)
      show ?thesis
      proof (cases "\<not> is_directory e \<or> skipped_name (file_name e)")
        case skip: True
        with IH [OF r'(2), of out] show ?thesis
          by (subst probe_loop.simps) (auto simp: r r'(1) Cons vendors_def)
      next
        case False
        obtain out2 f2 where t: "try_loaders F up device root own (file_name e) LOADERS out f1 = (out2, f2)" by force
        have "out2 = out @ vendor_found F up own device v (file_name e)" "cursor f2 = es"
          using try_loaders_find [OF root, of up device own "file_name e" LOADERS out f1] r'(2)
          by (simp_all add: t vendor_found_def)
        with IH [of f2 out2] False show ?thesis
          by (subst probe_loop.simps) (auto simp: r r'(1) Cons vendors_def t)
      qed
    qed
  qed
qed

lemma probe_finds:
  assumes "serves_root F cursor need root v"
  shows "\<exists>f'. probe F up device root own out f = Some (out @ volume_found F up own device v, f')"
proof -
  obtain w f1 where w: "file_exists F root WINDOWS f = (w, f1)" by force
  obtain ho f2 where h: "open_efi F root f1 = (ho, f2)" by force
  have win: "w = is_file v WINDOWS"
    using assms [unfolded serves_root_def, THEN conjunct1, THEN spec, THEN spec, of WINDOWS f, unfolded w fst_conv]
      asked_paths(2) by blast
  have efi: "case ho of
        None \<Rightarrow> efi_dir v = None
      | Some h \<Rightarrow> efi_dir v = Some (cursor f2) \<and> serves_dir F cursor need h"
    using assms [unfolded serves_root_def, THEN conjunct2, THEN spec, of f1, unfolded h fst_conv snd_conv] .
  show ?thesis
  proof (cases ho)
    case None
    with w h win efi show ?thesis by (simp add: probe_def volume_found_def windows_found_def)
  next
    case (Some e)
    with efi have "efi_dir v = Some (cursor f2)" "serves_dir F cursor need e" by simp_all
    note e = this
    have "probe F up device root own out f = probe_loop F up device root e own 512 (out @ windows_found device v) f2"
      using win by (simp add: probe_def w h Some windows_found_def)
    with probe_loop_finds [OF assms e(2), of up device own 512 "out @ windows_found device v" f2] e(1)
    show ?thesis by (simp add: volume_found_def)
  qed
qed

lemma scan_volumes_finds:
  assumes "serves F cursor need vol"
  shows "\<exists>f'. scan_volumes F up own devices out f = Some (out @ concat (map (\<lambda>d. case vol d of
      None \<Rightarrow> [] | Some v \<Rightarrow> volume_found F up own d v) devices), f')"
proof (induction devices arbitrary: out f)
  case (Cons d ds)
  obtain fo f1 where o: "open_file_system F d f = (fo, f1)" by force
  note s = assms [unfolded serves_def, THEN spec, THEN spec, of d f, unfolded o prod.case]
  show ?case
  proof (cases fo)
    case None
    with s Cons.IH [of out f1] show ?thesis by (simp add: o)
  next
    case (Some fs)
    obtain ro f2 where r: "open_volume F fs f1 = (ro, f2)" by force
    note s' = s [unfolded Some option.case r fst_conv]
    show ?thesis
    proof (cases ro)
      case None
      with s' Cons.IH [of out f2] show ?thesis by (simp add: o Some r)
    next
      case root: (Some root)
      with s' obtain v where v: "vol d = Some v" "serves_root F cursor need root v"
        by (auto split: option.splits)
      from probe_finds [OF v(2)] obtain f3 where
        "probe F up d root own out f2 = Some (out @ volume_found F up own d v, f3)" by blast
      with v(1) Cons.IH [of "out @ volume_found F up own d v" f3] show ?thesis by (simp add: o Some r root)
    qed
  qed
qed simp

section \<open>What every scan keeps\<close>

text \<open>Whatever the firmware does: each loader found is at a known place on a volume listed, and not ours.\<close>

definition known_loader :: "'f firmware \<Rightarrow> (handle \<times> cstr16) option \<Rightarrow> handle list \<Rightarrow> found \<Rightarrow> bool" where
  "known_loader F own devices e \<longleftrightarrow> found_device e \<in> set devices \<and>
     (found_path e = WINDOWS \<or>
      (\<exists>vendor. \<exists>l \<in> set LOADERS. found_path e = loader_path vendor l \<and> \<not> skipped_name vendor) \<and>
      \<not> is_own F own (found_device e) (found_path e))"

lemma try_loaders_known:
  assumes "try_loaders F up device root own vendor ls out f = (out', f')" and "device \<in> set devices"
    and "set ls \<subseteq> set LOADERS" and "\<not> skipped_name vendor" and "\<forall>e \<in> set out. known_loader F own devices e"
  shows "\<forall>e \<in> set out'. known_loader F own devices e"
  using assms
proof (induction ls arbitrary: out f)
  case (Cons l ls)
  obtain b f1 where e: "file_exists F root (loader_path vendor l) f = (b, f1)" by force
  show ?case
  proof (cases b)
    case False
    with Cons.prems Cons.IH [of out f1] e show ?thesis by simp
  next
    case True
    have "known_loader F own devices \<lparr>found_title = pretty F up vendor l, found_device = device,
        found_path = loader_path vendor l\<rparr>" if "\<not> is_own F own device (loader_path vendor l)"
      using Cons.prems(2-4) that by (simp add: known_loader_def) blast
    with Cons.prems(1,5) e True show ?thesis by (auto simp: Let_def split: if_splits)
  qed
qed simp

lemma probe_loop_known:
  assumes "probe_loop F up device root efi own buf out f = Some r"
  shows "device \<in> set devices \<longrightarrow> (\<forall>e \<in> set out. known_loader F own devices e) \<longrightarrow>
    (\<forall>e \<in> set (fst r). known_loader F own devices e)"
  using assms
proof (induction rule: probe_loop.raw_induct [rotated, consumes 1, case_names step])
  case (step loop F up device root efi own buf out f r)
  note IH = step(1) and run = step(2)
  obtain e f1 where e: "read_entry F efi buf f = (e, f1)" by force
  show ?case
  proof (intro impI)
    assume d: "device \<in> set devices" and out: "\<forall>e \<in> set out. known_loader F own devices e"
    show "\<forall>e \<in> set (fst r). known_loader F own devices e"
    proof (cases e)
      case (EntryErr err needed)
      with run e have "r = (out, f1) \<or> (\<exists>n. loop F up device root efi own n out f1 = Some r)"
        by (cases needed) (auto split: if_splits)
      with IH [of F up device root efi own _ out f1 r] d out show ?thesis by auto
    next
      case (EntryOk eo)
      show ?thesis
      proof (cases eo)
        case None
        with run e EntryOk out show ?thesis by auto
      next
        case (Some entry)
        obtain out2 f2 where t: "try_loaders F up device root own (file_name entry) LOADERS out f1 = (out2, f2)" by force
        have "\<forall>e \<in> set out2. known_loader F own devices e" if "\<not> skipped_name (file_name entry)"
          by (rule try_loaders_known [OF t d subset_refl that out])
        with IH [of F up device root efi own buf _ _ r] run e EntryOk Some t d out
        show ?thesis by (auto split: if_splits)
      qed
    qed
  qed
qed

lemma probe_known:
  assumes "probe F up device root own out f = Some (out', f')" and "device \<in> set devices"
    and "\<forall>e \<in> set out. known_loader F own devices e"
  shows "\<forall>e \<in> set out'. known_loader F own devices e"
proof -
  obtain w f1 where w: "file_exists F root WINDOWS f = (w, f1)" by force
  obtain ho f2 where h: "open_efi F root f1 = (ho, f2)" by force
  define o1 where "o1 = (if w then out @ [\<lparr>found_title = lit ''Windows Boot Manager'', found_device = device,
    found_path = WINDOWS\<rparr>] else out)"
  have o1: "\<forall>e \<in> set o1. known_loader F own devices e"
    using assms(2,3) by (auto simp: o1_def known_loader_def)
  show ?thesis
  proof (cases ho)
    case None
    with assms(1) o1 show ?thesis by (simp add: probe_def w h o1_def)
  next
    case (Some e)
    with assms(1) have "probe_loop F up device root e own 512 o1 f2 = Some (out', f')"
      by (simp add: probe_def w h o1_def)
    from probe_loop_known [OF this, of devices] o1 assms(2) show ?thesis by simp
  qed
qed

lemma scan_volumes_known:
  assumes "scan_volumes F up own ds out f = Some (out', f')" and "set ds \<subseteq> set devices"
    and "\<forall>e \<in> set out. known_loader F own devices e"
  shows "\<forall>e \<in> set out'. known_loader F own devices e"
  using assms
proof (induction ds arbitrary: out f)
  case (Cons d ds)
  obtain fo f1 where o: "open_file_system F d f = (fo, f1)" by force
  show ?case
  proof (cases fo)
    case None
    with Cons.prems Cons.IH [of out f1] show ?thesis by (simp add: o)
  next
    case (Some fs)
    obtain ro f2 where r: "open_volume F fs f1 = (ro, f2)" by force
    show ?thesis
    proof (cases ro)
      case None
      with Cons.prems Cons.IH [of out f2] show ?thesis by (simp add: o Some r)
    next
      case root: (Some root)
      with Cons.prems(1) o Some r obtain out2 f3 where
        p: "probe F up d root own out f2 = Some (out2, f3)" "scan_volumes F up own ds out2 f3 = Some (out', f')"
        by (auto split: option.splits)
      have "\<forall>e \<in> set out2. known_loader F own devices e"
        by (rule probe_known [OF p(1)]) (use Cons.prems in auto)
      with p(2) Cons.prems(2) Cons.IH [of out2 f3] show ?thesis by simp
    qed
  qed
qed simp

section \<open>Properties\<close>

text \<open>
  C14: on a firmware that shows volumes, \<open>scan\<close> returns, and with exactly what is there: of each
  volume that opens, in order, Windows if it is there and of every vendor's directory the first
  loader in order of preference, however long the directory's entries are.
\<close>

theorem scan_finds:
  assumes "serves F cursor need vol" and "locate_file_systems F f = (Some devices, f1)"
    and "own_image F f1 = (own, f2)"
  shows "\<exists>f'. scan F up f = Some (concat (map (\<lambda>d. case vol d of
      None \<Rightarrow> [] | Some v \<Rightarrow> volume_found F up own d v) devices), f')"
  using scan_volumes_finds [OF assms(1), of up own devices "[]" f2] by (simp add: scan_def assms(2,3))


section \<open>A volume with Windows and GRUB\<close>

definition demo_vendor :: dirent where
  "demo_vendor = \<lparr>is_directory = True, file_name = lit16 ''fedora'', file_size = 0\<rparr>"

definition demo_volume :: volume where
  "demo_volume = \<lparr>is_file = (\<lambda>p. p = WINDOWS \<or> p = loader_path (lit16 ''fedora'') (lit16 ''grubx64.efi'')),
     efi_dir = Some [demo_vendor]\<rparr>"

definition demo_disk :: "grants firmware" where
  "demo_disk = demo_fw\<lparr>locate_file_systems := (\<lambda>f. (Some [7], f)), open_file_system := (\<lambda>_ f. (Some 3, f)),
     dir_open := (\<lambda>_ p f. if p = EFI_DIR then (Some 20, []) else if is_file demo_volume p then (Some 10, f) else (None, f)),
     into_type := (\<lambda>h f. (Some (if h = 20 then Dir 21 else Regular h), f)),
     read_entry := (\<lambda>_ n f. if f \<noteq> [] then (EntryOk None, f)
       else if 600 \<le> n then (EntryOk (Some demo_vendor), [(0, 0)])
       else (EntryErr BUFFER_TOO_SMALL (Some 600), f))\<rparr>"

lemma demo_disk_serves:
  "serves demo_disk (\<lambda>f. if f = [] then [demo_vendor] else []) (\<lambda>_. 600) (\<lambda>_. Some demo_volume)"
  by (simp add: serves_def serves_root_def serves_dir_def demo_disk_def demo_fw_def file_exists_def open_efi_def
      demo_volume_def)

lemma demo_disk_finds:
  "volume_found demo_disk up None 7 demo_volume =
    [\<lparr>found_title = lit ''Windows Boot Manager'', found_device = 7, found_path = WINDOWS\<rparr>,
     \<lparr>found_title = lit ''Fedora'', found_device = 7,
      found_path = loader_path (lit16 ''fedora'') (lit16 ''grubx64.efi'')\<rparr>]"
  by (simp add: volume_found_def windows_found_def vendors_def demo_volume_def demo_vendor_def vendor_found_def
      LOADERS_def loader_path_def WINDOWS_def EFI_DIR_def sep_def skipped_name_def lit16_def lit_def is_own_def
      pretty_def eq_ignore_ascii_case_def to_ascii_uppercase_def ascii_upper_def to_uppercase_def demo_disk_def demo_fw_def)

lemma demo_disk_start: "locate_file_systems demo_disk [] = (Some [7], [])" "own_image demo_disk [] = (None, [])"
  by (simp_all add: demo_disk_def demo_fw_def own_image_def)

theorem scan_finds_witness:
  "\<exists>f'. scan demo_disk (\<lambda>c. [c]) [] =
    Some ([\<lparr>found_title = lit ''Windows Boot Manager'', found_device = 7, found_path = WINDOWS\<rparr>,
     \<lparr>found_title = lit ''Fedora'', found_device = 7,
      found_path = loader_path (lit16 ''fedora'') (lit16 ''grubx64.efi'')\<rparr>], f')"
proof -
  from scan_finds [OF demo_disk_serves demo_disk_start, of "\<lambda>c. [c]"] show ?thesis by (simp add: demo_disk_finds)
qed

lemma demo_disk_scan:
  "\<exists>out f'. scan demo_disk up [] = Some (out, f') \<and> map found_path out =
    [WINDOWS, loader_path (lit16 ''fedora'') (lit16 ''grubx64.efi'')]"
  using scan_volumes_finds [OF demo_disk_serves, of up None "[7]" "[]" "[]"]
  by (auto simp: scan_def demo_disk_finds demo_disk_start)


end
