(* ===== verification/Chain.thy ===== *)
theory Chain
  imports DemoFirmware
begin

text \<open>
  \<open>chain.rs\<close>: starting another UEFI application. \<open>None\<close> as the result of \<open>chain_boot\<close> is an
  image that was started and never returned. The nodes of a device path and the builder are the
  \<open>uefi\<close> crate's.
\<close>

section \<open>The path of the image\<close>

definition is_end :: "dp_node \<Rightarrow> bool" where
  "is_end node = (case node of DpNode ty sub _ \<Rightarrow> ty = 0x7F \<and> sub = 0xFF | MediaFilePath _ \<Rightarrow> False)"

fun push_nodes :: "'f firmware \<Rightarrow> device_path \<Rightarrow> dp_node list \<Rightarrow> device_path option" where
  "push_nodes F builder [] = Some builder"
| "push_nodes F builder (node # nodes) =
     (if is_end node then Some builder
      else case dp_push F builder node of
             None \<Rightarrow> None
           | Some builder \<Rightarrow> push_nodes F builder nodes)"

definition boot_device :: "'f firmware \<Rightarrow> handle option \<Rightarrow> 'f \<Rightarrow> handle option \<times> 'f" where
  "boot_device F device f =
     (case device of
        Some d \<Rightarrow> (Some d, f)
      | None \<Rightarrow>
          (case open_loaded_image F f of
             (None, f) \<Rightarrow> (None, f)
           | (Some loaded, f) \<Rightarrow> (li_device loaded, f)))"

definition full_path :: "'f firmware \<Rightarrow> handle option \<Rightarrow> cstr16 \<Rightarrow> 'f \<Rightarrow> device_path option \<times> 'f" where
  "full_path F device file f =
     (case boot_device F device f of
        (None, f) \<Rightarrow> (None, f)
      | (Some d, f) \<Rightarrow>
          (case open_device_path F d f of
             (None, f) \<Rightarrow> (None, f)
           | (Some nodes, f) \<Rightarrow>
               (case push_nodes F [] nodes of
                  None \<Rightarrow> (None, f)
                | Some builder \<Rightarrow>
                    (case dp_push F builder (MediaFilePath file) of
                       None \<Rightarrow> (None, f)
                     | Some builder \<Rightarrow> (dp_finalize F builder, f)))))"

section \<open>Loading and starting it\<close>

definition chain_boot :: "'f firmware \<Rightarrow> handle option \<Rightarrow> cstr16 \<Rightarrow> 'f \<Rightarrow> (status \<times> 'f) option" where
  "chain_boot F device file f =
     (case full_path F device file f of
        (None, f) \<Rightarrow> Some (NOT_FOUND, f)
      | (Some p, f) \<Rightarrow>
          (case load_image F p f of
             (Inl e, f) \<Rightarrow> Some (e, f)
           | (Inr h, f) \<Rightarrow>
               (case start_image F h f of
                  None \<Rightarrow> None
                | Some (Inr (), f) \<Rightarrow> Some (SUCCESS, f)
                | Some (Inl e, f) \<Rightarrow> Some (e, f))))"

section \<open>What the path comes to\<close>

text \<open>The crate's builder: it appends each node, and the end node when it is finished.\<close>

definition DP_END :: dp_node where
  "DP_END = DpNode 0x7F 0xFF []"

definition builder_contract :: "'f firmware \<Rightarrow> bool" where
  "builder_contract F \<longleftrightarrow> (\<forall>p n. dp_push F p n = Some (p @ [n])) \<and> (\<forall>p. dp_finalize F p = Some (p @ [DP_END]))"

lemma push_nodes_take:
  "builder_contract F \<Longrightarrow> push_nodes F p nodes = Some (p @ takeWhile (\<lambda>n. \<not> is_end n) nodes)"
  by (induction nodes arbitrary: p) (simp_all add: builder_contract_def)

definition image_path :: "device_path \<Rightarrow> cstr16 \<Rightarrow> device_path" where
  "image_path nodes file = takeWhile (\<lambda>n. \<not> is_end n) nodes @ [MediaFilePath file, DP_END]"

lemma full_path_image_path:
  assumes "builder_contract F" and "boot_device F device f = (Some d, f1)" and "open_device_path F d f1 = (Some nodes, f2)"
  shows "full_path F device file f = (Some (image_path nodes file), f2)"
  using push_nodes_take [OF assms(1)] assms
  by (simp add: full_path_def image_path_def) (simp add: builder_contract_def)

text \<open>The path is well formed: one end node, at the end, and the file right before it.\<close>

lemma image_path_well_formed:
  "filter is_end (image_path nodes file) = [DP_END] \<and> last (image_path nodes file) = DP_END \<and>
   last (butlast (image_path nodes file)) = MediaFilePath file"
proof -
  have "filter is_end (takeWhile (\<lambda>n. \<not> is_end n) nodes) = []" by (induction nodes) auto
  then show ?thesis by (simp add: image_path_def is_end_def DP_END_def butlast_append)
qed

section \<open>Properties\<close>

text \<open>
  C28: the image is asked for by the whole path of its volume, up to and without the end node,
  then the file, then one end node; and \<open>boot\<close> gives back the status of loading, or of the image
  if it was started and came back, and does not return while the image does not.
\<close>

theorem chain_boot_loads:
  assumes "builder_contract F" and "boot_device F device f = (Some d, f1)"
    and "open_device_path F d f1 = (Some nodes, f2)" and "p = image_path nodes file"
  shows "filter is_end p = [DP_END] \<and> last p = DP_END \<and> last (butlast p) = MediaFilePath file \<and>
    chain_boot F device file f =
      (case load_image F p f2 of
         (Inl e, f3) \<Rightarrow> Some (e, f3)
       | (Inr h, f3) \<Rightarrow>
           map_option (\<lambda>(r, f4). (case r of Inl e \<Rightarrow> e | Inr _ \<Rightarrow> SUCCESS, f4)) (start_image F h f3))"
proof -
  have "chain_boot F device file f =
      (case load_image F p f2 of
         (Inl e, f3) \<Rightarrow> Some (e, f3)
       | (Inr h, f3) \<Rightarrow>
           map_option (\<lambda>(r, f4). (case r of Inl e \<Rightarrow> e | Inr _ \<Rightarrow> SUCCESS, f4)) (start_image F h f3))"
    unfolding chain_boot_def full_path_image_path [OF assms(1-3)] assms(4) prod.case option.case
  proof (cases "load_image F (image_path nodes file) f2")
    case (Pair r f3)
    show "(case load_image F (image_path nodes file) f2 of
          (Inl e, f) \<Rightarrow> Some (e, f)
        | (Inr h, f) \<Rightarrow> (case start_image F h f of
            None \<Rightarrow> None | Some (Inr (), f) \<Rightarrow> Some (SUCCESS, f) | Some (Inl e, f) \<Rightarrow> Some (e, f))) =
      (case load_image F (image_path nodes file) f2 of
         (Inl e, f3) \<Rightarrow> Some (e, f3)
       | (Inr h, f3) \<Rightarrow>
           map_option (\<lambda>(r, f4). (case r of Inl e \<Rightarrow> e | Inr _ \<Rightarrow> SUCCESS, f4)) (start_image F h f3))"
      unfolding Pair by (cases r) (simp_all split: option.split sum.split prod.split unit.split)
  qed
  with image_path_well_formed [of nodes "file"] assms(4) show ?thesis by simp
qed

definition demo_chain :: "grants firmware" where
  "demo_chain = demo_fw\<lparr>open_device_path := (\<lambda>_ f. (Some [DpNode 2 1 [0], DP_END], f)),
     dp_finalize := (\<lambda>p. Some (p @ [DP_END])),
     load_image := (\<lambda>p f. (if p = [DpNode 2 1 [0], MediaFilePath [0x61], DP_END] then Inr 5 else Inl NOT_FOUND, f)),
     start_image := (\<lambda>h f. Some (Inl (OTHER_STATUS 1), f))\<rparr>"

theorem chain_boot_loads_witness:
  "chain_boot demo_chain (Some 7) [0x61] [] = Some (OTHER_STATUS 1, [])"
proof -
  have b: "builder_contract demo_chain" by (simp add: builder_contract_def demo_chain_def demo_fw_def)
  have d: "boot_device demo_chain (Some 7) [] = (Some 7, [])" by (simp add: boot_device_def)
  have o: "open_device_path demo_chain 7 [] = (Some [DpNode 2 1 [0], DP_END], [])" by (simp add: demo_chain_def)
  have p: "[DpNode 2 1 [0], MediaFilePath [0x61], DP_END] = image_path [DpNode 2 1 [0], DP_END] [0x61]"
    by (simp add: image_path_def is_end_def DP_END_def)
  from chain_boot_loads [OF b d o p] show ?thesis by (simp add: demo_chain_def)
qed

end
