(* ===== verification/Trampoline.thy ===== *)
theory Trampoline
  imports Page
begin

text \<open>
  \<open>trampoline.rs\<close> and \<open>handoff.rs\<close>: the two assembly routines that enter the kernel. Each is the
  list of its instructions, run on a model of the processor state they touch: the registers, the
  control registers and \<open>EFER\<close>, the segment registers with the descriptors they were loaded from,
  the descriptor table register and physical memory (the firmware maps it one to one). The bytes
  the assembler gives the relocated code are parameters, as is where the linker put it.
\<close>

section \<open>The processor\<close>

datatype reg = RAX | RBX | RCX | RDX | RSI | RDI | RSP | R8 | R10 | R11 | R12

datatype sreg = DS | ES | FS | GS | SS

record cpu =
  gpr :: "reg \<Rightarrow> u64"
  cr0 :: u64
  cr3 :: u64
  efer :: u64
  int_enabled :: bool
  backwards :: bool
  gdt_limit :: u16
  gdt_base :: u64
  cs :: "u16 \<times> bytes"
  sreg :: "sreg \<Rightarrow> u16 \<times> bytes"
  ram :: memory

definition set_gpr :: "reg \<Rightarrow> u64 \<Rightarrow> cpu \<Rightarrow> cpu" where
  "set_gpr r v c = c\<lparr>gpr := (gpr c)(r := v)\<rparr>"

text \<open>The bits of \<open>CR0\<close> and of \<open>EFER\<close>: protection, paging, long mode enabled and active.\<close>

definition PE :: nat where "PE = 0"
definition PG :: nat where "PG = 31"
definition LME :: nat where "LME = 8"
definition LMA :: nat where "LMA = 10"

text \<open>
  Descriptors: eight bytes, with the base and the limit in pieces, the access byte and the flags.
\<close>

definition descriptor :: "cpu \<Rightarrow> u16 \<Rightarrow> bytes option" where
  "descriptor c sel = (if unat sel + 7 \<le> unat (gdt_limit c)
     then Some (mem_read (ram c) (gdt_base c + ucast sel) 8) else None)"

definition seg_base :: "bytes \<Rightarrow> u32" where
  "seg_base d = of_le [d ! 2, d ! 3, d ! 4, d ! 7]"

definition seg_limit :: "bytes \<Rightarrow> u32" where
  "seg_limit d =
     (let l = of_le [d ! 0, d ! 1, d ! 6 AND 0x0F]
      in if d ! 6 AND 0x80 \<noteq> 0 then push_bit 12 l OR 0xFFF else l)"

text \<open>Present code segments, of 32 and of 64 bits, and present writable data segments.\<close>

definition code_segment :: "bytes \<Rightarrow> bool" where
  "code_segment d \<longleftrightarrow> d ! 5 AND 0x98 = 0x98"

definition code32_segment :: "bytes \<Rightarrow> bool" where
  "code32_segment d \<longleftrightarrow> code_segment d \<and> d ! 6 AND 0x60 = 0x40"

definition code64_segment :: "bytes \<Rightarrow> bool" where
  "code64_segment d \<longleftrightarrow> code_segment d \<and> d ! 6 AND 0x60 = 0x20"

definition data_segment :: "bytes \<Rightarrow> bool" where
  "data_segment d \<longleftrightarrow> d ! 5 AND 0x9A = 0x92"

section \<open>The instructions used\<close>

datatype label = TrampStart | TrampEnd | Gdt | GdtPtr | GdtPtrBase | TrampCode

datatype instr =
    Cli
  | Mov32 reg reg | Mov64 reg reg | MovImm16 reg u16 | MovImm32 reg u32 | MovImm64 reg u64
  | Lea reg label | Sub64 reg reg | AddImm64 reg u64
  | RepMovsb
  | Store32 u64 reg | Store64 reg reg | Load32 reg u32
  | Lgdt reg
  | PushImm u64 | Push reg | Retfq
  | MovSeg sreg reg
  | MovFromCr0 reg | MovToCr0 reg | MovToCr3 reg
  | AndImm32 reg u32 | OrImm32 reg u32 | Xor32 reg
  | Rdmsr | Wrmsr
  | FarJmp u32 u16 | Jmp reg

text \<open>
  The blob that is relocated: two bytes of jump, the three data slots, the code, the padding of
  \<open>.balign\<close>, the three descriptors and the pointer to them. \<open>at\<close> is \<open>_tramp_start\<close>.
\<close>

record tramp =
  at :: u64
  code_bytes :: bytes
  pm32_bytes :: bytes
  pad_bytes :: bytes

definition TRAMP_ADDR :: u64 where "TRAMP_ADDR = 0x1000"
definition SLOT_ENTRY :: u64 where "SLOT_ENTRY = TRAMP_ADDR + 0x02"
definition SLOT_MBI :: u64 where "SLOT_MBI = TRAMP_ADDR + 0x06"
definition SLOT_MAGIC :: u64 where "SLOT_MAGIC = TRAMP_ADDR + 0x0A"

definition CODE32_DESC :: bytes where
  "CODE32_DESC = [0xFF, 0xFF, 0x00, 0x00, 0x00, 0x9A, 0xCF, 0x00]"

definition DATA32_DESC :: bytes where
  "DATA32_DESC = [0xFF, 0xFF, 0x00, 0x00, 0x00, 0x92, 0xCF, 0x00]"

definition gdt_bytes :: bytes where
  "gdt_bytes = replicate 8 0 @ CODE32_DESC @ DATA32_DESC"

definition head_bytes :: "tramp \<Rightarrow> bytes" where
  "head_bytes t = [0xEB, 0x0C] @ replicate 12 0 @ code_bytes t @ pm32_bytes t @ pad_bytes t"

definition blob :: "tramp \<Rightarrow> bytes" where
  "blob t = head_bytes t @ gdt_bytes @ to_le 2 (of_nat (length gdt_bytes - 1) :: u16) @ to_le 8 (0 :: u64)"

definition off_code :: nat where "off_code = 14"

definition off_pm32 :: "tramp \<Rightarrow> nat" where
  "off_pm32 t = off_code + length (code_bytes t)"

definition off_gdt :: "tramp \<Rightarrow> nat" where
  "off_gdt t = length (head_bytes t)"

fun label_off :: "tramp \<Rightarrow> label \<Rightarrow> nat" where
  "label_off t TrampStart = 0"
| "label_off t TrampCode = off_code"
| "label_off t Gdt = off_gdt t"
| "label_off t GdtPtr = off_gdt t + 24"
| "label_off t GdtPtrBase = off_gdt t + 26"
| "label_off t TrampEnd = off_gdt t + 34"

section \<open>Running them\<close>

definition lo32 :: "reg \<Rightarrow> cpu \<Rightarrow> u32" where
  "lo32 r c = ucast (gpr c r)"

definition set32 :: "reg \<Rightarrow> u32 \<Rightarrow> cpu \<Rightarrow> cpu" where
  "set32 r v c = set_gpr r (ucast v) c"

definition store :: "u64 \<Rightarrow> bytes \<Rightarrow> cpu \<Rightarrow> cpu" where
  "store a bs c = c\<lparr>ram := mem_write (ram c) a bs\<rparr>"

definition push64 :: "u64 \<Rightarrow> cpu \<Rightarrow> cpu" where
  "push64 v c = store (gpr c RSP - 8) (to_le 8 v) (set_gpr RSP (gpr c RSP - 8) c)"

text \<open>\<open>rep movsb\<close>, a byte at a time, upwards or downwards as the direction flag says.\<close>

fun copy_bytes :: "nat \<Rightarrow> u64 \<Rightarrow> u64 \<Rightarrow> u64 \<Rightarrow> memory \<Rightarrow> memory" where
  "copy_bytes 0 d src dst m = m"
| "copy_bytes (Suc n) d src dst m = copy_bytes n d (src + d) (dst + d) (m(dst := m src))"

definition rep_movsb :: "cpu \<Rightarrow> cpu" where
  "rep_movsb c =
     (let n = gpr c RCX; d = (if backwards c then -1 else 1)
      in c\<lparr>gpr := (gpr c)(RCX := 0, RSI := gpr c RSI + n * d, RDI := gpr c RDI + n * d),
           ram := copy_bytes (unat n) d (gpr c RSI) (gpr c RDI) (ram c)\<rparr>)"

text \<open>
  Paging and long mode: \<open>PG\<close> needs \<open>PE\<close>, may not be cleared by 64-bit code, and makes long mode
  active while it is enabled; \<open>LME\<close> may not change under paging and \<open>LMA\<close> is not for writing.
\<close>

definition write_cr0 :: "u64 \<Rightarrow> cpu \<Rightarrow> cpu option" where
  "write_cr0 v c =
     (if bit v PG \<and> \<not> bit v PE then None
      else if \<not> bit v PG \<and> bit (cr0 c) PG \<and> code64_segment (snd (cs c)) then None
      else Some (c\<lparr>cr0 := v, efer := (if bit v PG \<and> bit (efer c) LME then set_bit LMA (efer c)
        else unset_bit LMA (efer c))\<rparr>))"

definition write_efer :: "u64 \<Rightarrow> cpu \<Rightarrow> cpu option" where
  "write_efer v c =
     (if bit (cr0 c) PG \<and> bit v LME \<noteq> bit (efer c) LME then None
      else Some (c\<lparr>efer := (if bit (efer c) LMA then set_bit LMA v else unset_bit LMA v)\<rparr>))"

datatype outcome = Next cpu | Goto u64 cpu

definition MSR_EFER :: u32 where "MSR_EFER = 0xC0000080"

fun step :: "tramp \<Rightarrow> instr \<Rightarrow> cpu \<Rightarrow> outcome option" where
  "step t Cli c = Some (Next (c\<lparr>int_enabled := False\<rparr>))"
| "step t (Mov32 r s) c = Some (Next (set32 r (lo32 s c) c))"
| "step t (Mov64 r s) c = Some (Next (set_gpr r (gpr c s) c))"
| "step t (MovImm32 r v) c = Some (Next (set32 r v c))"
| "step t (MovImm16 r v) c = Some (Next (set_gpr r ((gpr c r AND NOT 0xFFFF) OR ucast v) c))"
| "step t (MovImm64 r v) c = Some (Next (set_gpr r v c))"
| "step t (Lea r l) c = Some (Next (set_gpr r (at t + of_nat (label_off t l)) c))"
| "step t (Sub64 r s) c = Some (Next (set_gpr r (gpr c r - gpr c s) c))"
| "step t (AddImm64 r v) c = Some (Next (set_gpr r (gpr c r + v) c))"
| "step t RepMovsb c = Some (Next (rep_movsb c))"
| "step t (Store32 a r) c = Some (Next (store a (to_le 4 (lo32 r c)) c))"
| "step t (Store64 r s) c = Some (Next (store (gpr c r) (to_le 8 (gpr c s)) c))"
| "step t (Load32 r a) c =
     Some (Next (set32 r (of_le (mem_read (ram c) (ucast (seg_base (snd (sreg c DS)) + a)) 4)) c))"
| "step t (Lgdt r) c =
     Some (Next (c\<lparr>gdt_limit := of_le (mem_read (ram c) (gpr c r) 2),
       gdt_base := of_le (mem_read (ram c) (gpr c r + 2) 8)\<rparr>))"
| "step t (PushImm v) c = Some (Next (push64 v c))"
| "step t (Push r) c = Some (Next (push64 (gpr c r) c))"
| "step t Retfq c =
     (let sp = gpr c RSP;
          target = of_le (mem_read (ram c) sp 8);
          sel = ucast (of_le (mem_read (ram c) (sp + 8) 8) :: u64)
      in case descriptor c sel of
           None \<Rightarrow> None
         | Some d \<Rightarrow>
             if code_segment d then Some (Goto target (set_gpr RSP (sp + 16) (c\<lparr>cs := (sel, d)\<rparr>))) else None)"
| "step t (MovSeg s r) c =
     (let sel = ucast (gpr c r)
      in case descriptor c sel of
           None \<Rightarrow> None
         | Some d \<Rightarrow> if data_segment d then Some (Next (c\<lparr>sreg := (sreg c)(s := (sel, d))\<rparr>)) else None)"
| "step t (MovFromCr0 r) c = Some (Next (set32 r (ucast (cr0 c)) c))"
| "step t (MovToCr0 r) c = map_option Next (write_cr0 (ucast (lo32 r c)) c)"
| "step t (MovToCr3 r) c = Some (Next (c\<lparr>cr3 := ucast (lo32 r c)\<rparr>))"
| "step t (AndImm32 r v) c = Some (Next (set32 r (lo32 r c AND v) c))"
| "step t (OrImm32 r v) c = Some (Next (set32 r (lo32 r c OR v) c))"
| "step t (Xor32 r) c = Some (Next (set32 r 0 c))"
| "step t Rdmsr c =
     (if lo32 RCX c = MSR_EFER
      then Some (Next (set32 RDX (ucast (drop_bit 32 (efer c))) (set32 RAX (ucast (efer c)) c))) else None)"
| "step t Wrmsr c =
     (if lo32 RCX c = MSR_EFER
      then map_option Next (write_efer (push_bit 32 (ucast (lo32 RDX c)) OR ucast (lo32 RAX c)) c) else None)"
| "step t (FarJmp a sel) c =
     (case descriptor c sel of
        None \<Rightarrow> None
      | Some d \<Rightarrow> if code_segment d then Some (Goto (ucast a) (c\<lparr>cs := (sel, d)\<rparr>)) else None)"
| "step t (Jmp r) c = Some (Goto (if code64_segment (snd (cs c)) then gpr c r else ucast (lo32 r c)) c)"

fun exec :: "tramp \<Rightarrow> instr list \<Rightarrow> cpu \<Rightarrow> (u64 \<times> cpu) option" where
  "exec t [] c = None"
| "exec t (i # is) c =
     (case step t i c of
        None \<Rightarrow> None
      | Some (Next c) \<Rightarrow> exec t is c
      | Some (Goto a c) \<Rightarrow> Some (a, c))"

section \<open>The trampoline\<close>

definition entry_code :: "instr list" where
  "entry_code =
     [Cli,
      Mov32 R10 RCX, Mov32 R11 RDX,
      Lea RSI TrampStart, Lea RCX TrampEnd, Sub64 RCX RSI,
      MovImm64 RDI TRAMP_ADDR, RepMovsb,
      Store32 SLOT_ENTRY R10, Store32 SLOT_MBI R11, Store32 SLOT_MAGIC R8,
      Lea R12 TrampStart,
      Lea RAX Gdt, Sub64 RAX R12, AddImm64 RAX TRAMP_ADDR,
      Lea RDX GdtPtrBase, Sub64 RDX R12, AddImm64 RDX TRAMP_ADDR,
      Store64 RDX RAX,
      Lea RAX GdtPtr, Sub64 RAX R12, AddImm64 RAX TRAMP_ADDR,
      Lgdt RAX,
      Lea RAX TrampCode, Sub64 RAX R12, AddImm64 RAX TRAMP_ADDR,
      PushImm 0x08, Push RAX, Retfq]"

definition set_segments :: "instr list" where
  "set_segments = [MovImm16 RAX 0x10, MovSeg DS RAX, MovSeg ES RAX, MovSeg FS RAX, MovSeg GS RAX, MovSeg SS RAX]"

definition tramp_code :: "tramp \<Rightarrow> instr list" where
  "tramp_code t = set_segments @
     [MovFromCr0 RAX, AndImm32 RAX 0x7FFFFFFF, MovToCr0 RAX,
      Xor32 RAX, MovToCr3 RAX,
      MovImm32 RCX 0xC0000080, Rdmsr, AndImm32 RAX 0xFFFFFEFF, Wrmsr,
      MovFromCr0 RAX, OrImm32 RAX 1, AndImm32 RAX 0x7FFFFFFF, MovToCr0 RAX,
      FarJmp (ucast (TRAMP_ADDR + of_nat (off_pm32 t))) 0x08]"

definition pm32_code :: "instr list" where
  "pm32_code = set_segments @
     [MovImm32 RSP 0x7C00,
      Load32 RAX (ucast SLOT_MAGIC), Load32 RBX (ucast SLOT_MBI), Load32 RCX (ucast SLOT_ENTRY),
      Jmp RCX]"

text \<open>
  Control leaves for an address; what is there is the code of the blob if the blob's bytes for it
  are in memory at that place.
\<close>

definition fetch :: "tramp \<Rightarrow> memory \<Rightarrow> u64 \<Rightarrow> instr list option" where
  "fetch t m a =
     (if a = TRAMP_ADDR + of_nat off_code \<and> mem_read m a (length (code_bytes t)) = code_bytes t
      then Some (tramp_code t)
      else if a = TRAMP_ADDR + of_nat (off_pm32 t) \<and> mem_read m a (length (pm32_bytes t)) = pm32_bytes t
      then Some pm32_code
      else None)"

fun run_from :: "tramp \<Rightarrow> instr list \<Rightarrow> nat \<Rightarrow> cpu \<Rightarrow> (u64 \<times> cpu) option" where
  "run_from t code 0 c = exec t code c"
| "run_from t code (Suc jumps) c =
     (case exec t code c of
        None \<Rightarrow> None
      | Some (a, c) \<Rightarrow>
          (case fetch t (ram c) a of
             None \<Rightarrow> None
           | Some code \<Rightarrow> run_from t code jumps c))"

text \<open>Entry, the relocated code and the 32-bit code: two jumps, and a last one to the kernel.\<close>

definition boot_jump_to_kernel :: "tramp \<Rightarrow> cpu \<Rightarrow> (u64 \<times> cpu) option" where
  "boot_jump_to_kernel t c = run_from t entry_code 2 c"

definition handoff_code :: "instr list" where
  "handoff_code = [Cli, MovImm64 RSP 0x7C00, MovImm64 RDI 0x42414E47, Mov64 RSI RDX, Jmp RCX]"

definition boot_handoff_64 :: "tramp \<Rightarrow> cpu \<Rightarrow> (u64 \<times> cpu) option" where
  "boot_handoff_64 t c = exec t handoff_code c"

section \<open>Straight-line code\<close>

fun straight :: "tramp \<Rightarrow> instr list \<Rightarrow> cpu \<Rightarrow> cpu option" where
  "straight t [] c = Some c"
| "straight t (i # is) c = (case step t i c of Some (Next c) \<Rightarrow> straight t is c | _ \<Rightarrow> None)"

lemma exec_append: "straight t xs c = Some c' \<Longrightarrow> exec t (xs @ ys) c = exec t ys c'"
  by (induction xs arbitrary: c) (auto split: option.splits outcome.splits)

lemmas cpu_simps = set_gpr_def set32_def lo32_def store_def push64_def Let_def

section \<open>The copy\<close>

lemma mem_write_cons:
  assumes "length bs < 2 ^ 64"
  shows "mem_write (m(a := b)) (a + 1) bs = mem_write m a (b # bs)"
proof -
  have "m(a := b) = mem_write m a [b]"
    by (auto simp: mem_write_def fun_eq_iff unsigned_eq_0_iff)
  moreover have "length [b] + length bs \<le> 2 ^ 64" using assms by simp
  ultimately show ?thesis using mem_write_write [of "[b]" bs m a] by simp
qed

lemma mem_read_Suc: "mem_read m a (Suc n) = m a # mem_read m (a + 1) n"
proof -
  have "map (\<lambda>i. m (a + of_nat i)) [0..<Suc n] = m (a + of_nat 0) # map (\<lambda>i. m (a + of_nat (Suc i))) [0..<n]"
    by (subst upt_conv_Cons) (simp_all add: map_Suc_upt [symmetric] del: upt_Suc map_Suc_upt)
  then show ?thesis by (simp add: mem_read_def add.assoc)
qed

lemma copy_bytes_write:
  assumes "run_of src n \<inter> run_of dst n = {}" and "n < 2 ^ 64"
  shows "copy_bytes n 1 src dst m = mem_write m dst (mem_read m src n)"
  using assms
proof (induction n arbitrary: src dst m)
  case 0
  then show ?case by (simp add: mem_read_def)
next
  case (Suc n)
  have sub: "run_of (a + 1) n \<subseteq> run_of a (Suc n)" for a
    using run_of_sub [of a 1 n "run_of a (Suc n)"] Suc.prems(2) by simp
  have "run_of (src + 1) n \<inter> run_of (dst + 1) n = {}" using Suc.prems(1) sub by blast
  then have "copy_bytes n 1 (src + 1) (dst + 1) (m(dst := m src)) =
      mem_write (m(dst := m src)) (dst + 1) (mem_read (m(dst := m src)) (src + 1) n)"
    using Suc.IH Suc.prems(2) by simp
  moreover have "dst \<in> run_of dst (Suc n)" by (simp add: run_of_def in_range_def)
  then have "dst \<notin> run_of (src + 1) n" using Suc.prems(1) sub [of src] by blast
  then have "mem_read (m(dst := m src)) (src + 1) n = mem_read m (src + 1) n"
    using Suc.prems(2) by (intro mem_read_run) auto
  ultimately show ?case
    using mem_write_cons [of "mem_read m (src + 1) n" m dst "m src"] Suc.prems(2) by (simp add: mem_read_Suc)
qed

lemma mem_read_page: "k + n \<le> 4096 \<Longrightarrow> mem_read m (a + of_nat k) n = slice (page a m) k n"
  by (rule nth_equalityI) (simp_all add: page_def splice_simps add.assoc)

section \<open>The relocated blob\<close>

text \<open>What the blob looks like once its slots and its descriptor table pointer are filled in.\<close>

definition patched :: "tramp \<Rightarrow> u32 \<Rightarrow> u32 \<Rightarrow> u32 \<Rightarrow> bytes" where
  "patched t entry mbi magic =
     [0xEB, 0x0C] @ to_le 4 entry @ to_le 4 mbi @ to_le 4 magic @ code_bytes t @ pm32_bytes t @ pad_bytes t @
     gdt_bytes @ to_le 2 (23 :: u16) @ to_le 8 (TRAMP_ADDR + of_nat (off_gdt t))"

lemma length_gdt_bytes [simp]: "length gdt_bytes = 24"
  by (simp add: gdt_bytes_def CODE32_DESC_def DATA32_DESC_def)

lemma length_blob: "length (blob t) = off_gdt t + 34"
  by (simp add: blob_def off_gdt_def)

lemma length_patched: "length (patched t entry mbi magic) = off_gdt t + 34"
  by (simp add: patched_def off_gdt_def head_bytes_def)

lemma blob_patched:
  "splice (splice (splice (splice (blob t @ rest) 2 (to_le 4 entry)) 6 (to_le 4 mbi)) 10 (to_le 4 magic))
     (off_gdt t + 26) (to_le 8 (TRAMP_ADDR + of_nat (off_gdt t))) = patched t entry mbi magic @ rest"
proof -
  let ?z = "replicate 4 0 :: bytes" and ?j = "[0xEB, 0x0C] :: bytes"
  let ?b = "code_bytes t @ pm32_bytes t @ pad_bytes t @ gdt_bytes @ to_le 2 (23 :: u16)"
  have "blob t @ rest = ?j @ ?z @ (?z @ ?z @ ?b @ to_le 8 (0 :: u64) @ rest)"
    by (simp add: blob_def head_bytes_def replicate_add [of 4 8, simplified, symmetric] numeral_eq_Suc)
  then have 1: "splice (blob t @ rest) 2 (to_le 4 entry) =
      ?j @ to_le 4 entry @ ?z @ ?z @ ?b @ to_le 8 (0 :: u64) @ rest"
    using splice_append_middle [of "to_le 4 entry" ?z ?j] by (simp add: numeral_2_eq_2 [symmetric])
  have 2: "splice (?j @ to_le 4 entry @ ?z @ ?z @ ?b @ to_le 8 (0 :: u64) @ rest) 6 (to_le 4 mbi) =
      ?j @ to_le 4 entry @ to_le 4 mbi @ ?z @ ?b @ to_le 8 (0 :: u64) @ rest"
    using splice_append_middle [of "to_le 4 mbi" ?z "?j @ to_le 4 entry"] by simp
  have 3: "splice (?j @ to_le 4 entry @ to_le 4 mbi @ ?z @ ?b @ to_le 8 (0 :: u64) @ rest) 10 (to_le 4 magic) =
      ?j @ to_le 4 entry @ to_le 4 mbi @ to_le 4 magic @ ?b @ to_le 8 (0 :: u64) @ rest"
    using splice_append_middle [of "to_le 4 magic" ?z "?j @ to_le 4 entry @ to_le 4 mbi"] by simp
  have l: "length (?j @ to_le 4 entry @ to_le 4 mbi @ to_le 4 magic @ ?b) = off_gdt t + 26"
    by (simp add: off_gdt_def head_bytes_def)
  show ?thesis
    unfolding 1 2 3 patched_def
    using splice_append_middle [of "to_le 8 (TRAMP_ADDR + of_nat (off_gdt t))" "to_le 8 (0 :: u64)"
        "?j @ to_le 4 entry @ to_le 4 mbi @ to_le 4 magic @ ?b" rest, unfolded l]
    by simp
qed

lemma slice_middle: "P = a @ b @ c \<Longrightarrow> k = length a \<Longrightarrow> n = length b \<Longrightarrow> slice P k n = b"
  by (simp add: slice_append_middle)

lemma lo32_wide: "(ucast (ucast (y :: u32) :: u64) :: u32) = y"
  using unat_u32_bound [of y] by (simp add: word_unat_eq_iff unat_narrow32)

lemma patched_slices:
  assumes "P = patched t entry mbi magic @ rest"
  shows "slice P 2 4 = to_le 4 entry" and "slice P 6 4 = to_le 4 mbi" and "slice P 10 4 = to_le 4 magic"
    and "slice P off_code (length (code_bytes t)) = code_bytes t"
    and "slice P (off_pm32 t) (length (pm32_bytes t)) = pm32_bytes t"
    and "slice P (off_gdt t + 8) 8 = CODE32_DESC" and "slice P (off_gdt t + 16) 8 = DATA32_DESC"
    and "slice P (off_gdt t + 24) 2 = to_le 2 (23 :: u16)"
    and "slice P (off_gdt t + 26) 8 = to_le 8 (TRAMP_ADDR + of_nat (off_gdt t))"
proof -
  let ?j = "[0xEB, 0x0C] :: bytes" and ?e = "to_le 4 entry" and ?b = "to_le 4 mbi" and ?m = "to_le 4 magic"
    and ?c = "code_bytes t" and ?p = "pm32_bytes t" and ?d = "pad_bytes t" and ?z = "replicate 8 0 :: bytes"
    and ?l = "to_le 2 (23 :: u16)" and ?g = "to_le 8 (TRAMP_ADDR + of_nat (off_gdt t))"
  have P: "P = ?j @ ?e @ ?b @ ?m @ ?c @ ?p @ ?d @ ?z @ CODE32_DESC @ DATA32_DESC @ ?l @ ?g @ rest"
    by (simp add: assms patched_def gdt_bytes_def)
  have len: "length CODE32_DESC = 8" "length DATA32_DESC = 8" by (simp_all add: CODE32_DESC_def DATA32_DESC_def)
  have off: "off_gdt t = 14 + length ?c + length ?p + length ?d" by (simp add: off_gdt_def head_bytes_def)
  show "slice P 2 4 = ?e"
    by (rule slice_middle [where a = "?j" and b = ?e], simp only: P append_assoc)
      (simp_all add: off len off_code_def off_pm32_def)
  show "slice P 6 4 = ?b"
    by (rule slice_middle [where a = "?j @ ?e" and b = ?b], simp only: P append_assoc)
      (simp_all add: off len off_code_def off_pm32_def)
  show "slice P 10 4 = ?m"
    by (rule slice_middle [where a = "?j @ ?e @ ?b" and b = ?m], simp only: P append_assoc)
      (simp_all add: off len off_code_def off_pm32_def)
  show "slice P off_code (length ?c) = ?c"
    by (rule slice_middle [where a = "?j @ ?e @ ?b @ ?m" and b = ?c], simp only: P append_assoc)
      (simp_all add: off len off_code_def off_pm32_def)
  show "slice P (off_pm32 t) (length ?p) = ?p"
    by (rule slice_middle [where a = "?j @ ?e @ ?b @ ?m @ ?c" and b = ?p], simp only: P append_assoc)
      (simp_all add: off len off_code_def off_pm32_def)
  show "slice P (off_gdt t + 8) 8 = CODE32_DESC"
    by (rule slice_middle [where a = "?j @ ?e @ ?b @ ?m @ ?c @ ?p @ ?d @ ?z" and b = "CODE32_DESC"], simp only: P append_assoc)
      (simp_all add: off len off_code_def off_pm32_def)
  show "slice P (off_gdt t + 16) 8 = DATA32_DESC"
    by (rule slice_middle [where a = "?j @ ?e @ ?b @ ?m @ ?c @ ?p @ ?d @ ?z @ CODE32_DESC" and b = "DATA32_DESC"], simp only: P append_assoc)
      (simp_all add: off len off_code_def off_pm32_def)
  show "slice P (off_gdt t + 24) 2 = ?l"
    by (rule slice_middle [where a = "?j @ ?e @ ?b @ ?m @ ?c @ ?p @ ?d @ ?z @ CODE32_DESC @ DATA32_DESC" and b = ?l], simp only: P append_assoc)
      (simp_all add: off len off_code_def off_pm32_def)
  show "slice P (off_gdt t + 26) 8 = ?g"
    by (rule slice_middle [where a = "?j @ ?e @ ?b @ ?m @ ?c @ ?p @ ?d @ ?z @ CODE32_DESC @ DATA32_DESC @ ?l" and b = ?g], simp only: P append_assoc)
      (simp_all add: off len off_code_def off_pm32_def)
qed

section \<open>Into the blob\<close>

text \<open>
  What is relied on: 64-bit code with paging on, strings upwards (the calling convention), the
  image where the linker put it and outside the page, which the stack in use does not meet.
\<close>

definition tramp_ready :: "tramp \<Rightarrow> cpu \<Rightarrow> bool" where
  "tramp_ready t c \<longleftrightarrow> length (blob t) \<le> 4096 \<and> code_bytes t \<noteq> [] \<and> mem_read (ram c) (at t) (length (blob t)) = blob t \<and>
     run_of (at t) (length (blob t)) \<inter> run_of TRAMP_ADDR 4096 = {} \<and>
     run_of (gpr c RSP - 16) 16 \<inter> run_of TRAMP_ADDR 4096 = {} \<and> \<not> backwards c \<and>
     code64_segment (snd (cs c)) \<and> bit (cr0 c) PG \<and> bit (cr0 c) PE"

lemma entry_code_parts:
  "entry_code = take 11 entry_code @ drop 11 (take 19 entry_code) @ drop 19 (take 23 entry_code) @ drop 23 entry_code"
  by (simp add: entry_code_def)

definition same_control :: "cpu \<Rightarrow> cpu \<Rightarrow> bool" where
  "same_control c c' \<longleftrightarrow> gpr c' RSP = gpr c RSP \<and> cs c' = cs c \<and> cr0 c' = cr0 c \<and> efer c' = efer c"

lemma copy_part:
  assumes "tramp_ready t c"
  obtains c' where "straight t (take 11 entry_code) c = Some c'" and "same_control c c'" and "\<not> int_enabled c'"
    and "same_outside TRAMP_ADDR 4096 (ram c) (ram c')"
    and "page TRAMP_ADDR (ram c') = splice (splice (splice (blob t @ drop (length (blob t)) (page TRAMP_ADDR (ram c)))
      2 (to_le 4 (lo32 RCX c))) 6 (to_le 4 (lo32 RDX c))) 10 (to_le 4 (lo32 R8 c))"
proof -
  let ?n = "length (blob t)" and ?A = TRAMP_ADDR
  have n: "?n \<le> 4096" "mem_read (ram c) (at t) ?n = blob t" "\<not> backwards c"
    and d: "run_of (at t) ?n \<inter> run_of ?A ?n = {}"
    using assms by (auto simp: tramp_ready_def run_of_def in_range_def)
  have u: "unat (of_nat ?n :: u64) = ?n" using n(1) by (intro unat_offset) simp
  have cp: "copy_bytes ?n 1 (at t) ?A (ram c) = win_put ?A (ram c) 0 (blob t)"
    using copy_bytes_write [OF d, of "ram c"] n(1,2) by (simp add: win_put_def)
  define m1 where "m1 = win_put ?A (ram c) 0 (blob t)"
  define m4 where "m4 = win_put ?A (win_put ?A (win_put ?A m1 2 (to_le 4 (lo32 RCX c))) 6 (to_le 4 (lo32 RDX c))) 10 (to_le 4 (lo32 R8 c))"
  have o: "off_gdt t + 34 = ?n" by (simp add: length_blob)
  have "\<exists>c'. straight t (take 11 entry_code) c = Some c' \<and> same_control c c' \<and> \<not> int_enabled c' \<and> ram c' = m4"
    using n(3) u cp
    by (simp add: entry_code_def cpu_simps rep_movsb_def o same_control_def m4_def m1_def win_put_def
        SLOT_ENTRY_def SLOT_MBI_def SLOT_MAGIC_def lo32_wide)
  then obtain c' where c': "straight t (take 11 entry_code) c = Some c'" "same_control c c'" "\<not> int_enabled c'" "ram c' = m4"
    by blast
  show thesis
  proof (rule that [OF c'(1-3)])
    show "same_outside ?A 4096 (ram c) (ram c')"
      unfolding c'(4) m4_def m1_def using n(1)
      by (intro same_outside_trans [OF _ bp.frame_put] bp.frame_put) simp_all
    show "page ?A (ram c') = splice (splice (splice (blob t @ drop ?n (page ?A (ram c)))
        2 (to_le 4 (lo32 RCX c))) 6 (to_le 4 (lo32 RDX c))) 10 (to_le 4 (lo32 R8 c))"
      unfolding c'(4) m4_def m1_def using n(1) by (simp add: page_put splice_def)
  qed
qed

lemma patch_part:
  "\<exists>c'. straight t (drop 11 (take 19 entry_code)) c = Some c' \<and> same_control c c' \<and>
    int_enabled c' = int_enabled c \<and> gpr c' R12 = at t \<and>
    ram c' = win_put TRAMP_ADDR (ram c) (off_gdt t + 26) (to_le 8 (TRAMP_ADDR + of_nat (off_gdt t)))"
  by (simp add: entry_code_def cpu_simps same_control_def win_put_def add_ac)

text \<open>The descriptor table as it is loaded, and its two descriptors read from the page.\<close>

definition gdt_loaded :: "tramp \<Rightarrow> cpu \<Rightarrow> bool" where
  "gdt_loaded t c \<longleftrightarrow> gdt_limit c = 23 \<and> gdt_base c = TRAMP_ADDR + of_nat (off_gdt t)"

lemma lgdt_part:
  assumes "page TRAMP_ADDR (ram c) = patched t entry mbi magic @ rest" and "off_gdt t + 34 \<le> 4096" and "gpr c R12 = at t"
  shows "\<exists>c'. straight t (drop 19 (take 23 entry_code)) c = Some c' \<and> same_control c c' \<and>
    int_enabled c' = int_enabled c \<and> gpr c' R12 = at t \<and> ram c' = ram c \<and> gdt_loaded t c'"
proof -
  note s = patched_slices(8,9) [OF assms(1)]
  have l: "mem_read (ram c) (TRAMP_ADDR + of_nat (off_gdt t + 24)) 2 = to_le 2 (23 :: u16)"
    using mem_read_page [of "off_gdt t + 24" 2] s(1) assms(2) by simp
  have b: "mem_read (ram c) (TRAMP_ADDR + of_nat (off_gdt t + 26)) 8 = to_le 8 (TRAMP_ADDR + of_nat (off_gdt t))"
    using mem_read_page [of "off_gdt t + 26" 8] s(2) assms(2) by simp
  show ?thesis
    using l b assms(3) by (simp add: entry_code_def cpu_simps same_control_def gdt_loaded_def add_ac)
qed

lemma descriptors:
  assumes "page TRAMP_ADDR (ram c) = patched t entry mbi magic @ rest" and "off_gdt t + 34 \<le> 4096" and "gdt_loaded t c"
  shows "descriptor c 8 = Some CODE32_DESC" and "descriptor c 16 = Some DATA32_DESC"
proof -
  note s = patched_slices(6,7) [OF assms(1)]
  have "mem_read (ram c) (TRAMP_ADDR + of_nat (off_gdt t + 8)) 8 = CODE32_DESC"
    using mem_read_page [of "off_gdt t + 8" 8] s(1) assms(2) by simp
  then show "descriptor c 8 = Some CODE32_DESC"
    unfolding descriptor_def using assms(3) by (simp add: gdt_loaded_def add.assoc)
  have "mem_read (ram c) (TRAMP_ADDR + of_nat (off_gdt t + 16)) 8 = DATA32_DESC"
    using mem_read_page [of "off_gdt t + 16" 8] s(2) assms(2) by simp
  then show "descriptor c 16 = Some DATA32_DESC"
    unfolding descriptor_def using assms(3) by (simp add: gdt_loaded_def add.assoc)
qed

lemma segment_kinds:
  "code_segment CODE32_DESC" "code32_segment CODE32_DESC" "\<not> code64_segment CODE32_DESC" "data_segment DATA32_DESC"
  "seg_base DATA32_DESC = 0" "seg_base CODE32_DESC = 0" "seg_limit DATA32_DESC = 0xFFFFFFFF" "seg_limit CODE32_DESC = 0xFFFFFFFF"
  by (simp_all add: code_segment_def code32_segment_def code64_segment_def data_segment_def seg_base_def seg_limit_def
      CODE32_DESC_def DATA32_DESC_def)

text \<open>Two quadwords pushed and popped.\<close>

lemma pushed:
  fixes a x y :: u64 and m0 :: memory
  defines "m \<equiv> mem_write (mem_write m0 (a - 8) (to_le 8 x)) (a - 16) (to_le 8 y)"
  shows "mem_read m (a - 16) 8 = to_le 8 y" and "mem_read m (a - 16 + 8) 8 = to_le 8 x"
    and "z \<notin> run_of (a - 16) 16 \<Longrightarrow> m z = m0 z"
proof -
  let ?b = "a - 16"
  have m: "m = win_put ?b (win_put ?b m0 8 (to_le 8 x)) 0 (to_le 8 y)"
    by (simp add: m_def win_put_def)
  have g: "m (?b + of_nat i) = (if i < 8 then to_le 8 y ! i else to_le 8 x ! (i - 8))" if "i < 16" for i
    using that win_get_put [of 0 "to_le 8 y" i ?b] win_get_put [of 8 "to_le 8 x" i ?b m0]
    unfolding m by (simp add: win_get_def)
  show "mem_read m ?b 8 = to_le 8 y" by (rule nth_equalityI) (use g in auto)
  show "mem_read m (?b + 8) 8 = to_le 8 x"
  proof (rule nth_equalityI)
    fix i assume i: "i < length (mem_read m (?b + 8) 8)"
    then show "mem_read m (?b + 8) 8 ! i = to_le 8 x ! i" using g [of "i + 8"] by (simp add: add_ac)
  qed simp
  have "same_outside ?b 16 m0 m" unfolding m
    by (intro same_outside_trans [OF same_outside_put same_outside_put]) simp_all
  then show "z \<notin> run_of ?b 16 \<Longrightarrow> m z = m0 z" by (rule same_outside_run)
qed

lemma jump_part:
  assumes "gpr c R12 = at t"
    and gdt: "\<And>m. (\<And>z. z \<notin> run_of (gpr c RSP - 16) 16 \<Longrightarrow> m z = ram c z) \<Longrightarrow>
      descriptor (c\<lparr>ram := m\<rparr>) 8 = Some CODE32_DESC"
  shows "\<exists>c'. exec t (drop 23 entry_code) c = Some (TRAMP_ADDR + of_nat off_code, c') \<and>
    cs c' = (8, CODE32_DESC) \<and> cr0 c' = cr0 c \<and> efer c' = efer c \<and> int_enabled c' = int_enabled c \<and>
    gdt_limit c' = gdt_limit c \<and> gdt_base c' = gdt_base c \<and>
    (\<forall>z. z \<notin> run_of (gpr c RSP - 16) 16 \<longrightarrow> ram c' z = ram c z)"
proof -
  let ?a = "gpr c RSP" and ?t = "of_nat off_code + TRAMP_ADDR"
  define m where "m = mem_write (mem_write (ram c) (?a - 8) (to_le 8 (8 :: u64))) (?a - 16) (to_le 8 ?t)"
  note p = pushed [where ?m0.0 = "ram c" and a = ?a and x = 8 and y = ?t, folded m_def]
  have d: "descriptor (c\<lparr>ram := m\<rparr>) 8 = Some CODE32_DESC" by (rule gdt [OF p(3)])
  have d': "descriptor (c\<lparr>gpr := g, ram := m\<rparr>) 8 = Some CODE32_DESC" for g
    using d by (simp add: descriptor_def split: if_splits)
  show ?thesis
    using p d' assms(1) segment_kinds(1)
    by (simp add: entry_code_def cpu_simps m_def [symmetric] add.commute [of TRAMP_ADDR])
qed

text \<open>The state in which the relocated code starts, and which it keeps until the kernel.\<close>

definition in_blob :: "tramp \<Rightarrow> bytes \<Rightarrow> cpu \<Rightarrow> bool" where
  "in_blob t P c \<longleftrightarrow> page TRAMP_ADDR (ram c) = P \<and> gdt_loaded t c \<and> cs c = (8, CODE32_DESC) \<and> \<not> int_enabled c"

lemma page_same: "(\<And>z. z \<in> run_of a 4096 \<Longrightarrow> m' z = m z) \<Longrightarrow> page a m' = page a m"
  unfolding page_def by (intro mem_read_run) auto

lemma entry_part:
  assumes r: "tramp_ready t c" and P: "P = patched t (lo32 RCX c) (lo32 RDX c) (lo32 R8 c) @ drop (length (blob t)) (page TRAMP_ADDR (ram c))"
  obtains c' where "exec t entry_code c = Some (TRAMP_ADDR + of_nat off_code, c')" and "in_blob t P c'"
    and "cr0 c' = cr0 c" and "efer c' = efer c"
    and "\<And>z. z \<notin> run_of TRAMP_ADDR 4096 \<union> run_of (gpr c RSP - 16) 16 \<Longrightarrow> ram c' z = ram c z"
proof -
  let ?A = TRAMP_ADDR and ?rest = "drop (length (blob t)) (page TRAMP_ADDR (ram c))"
    and ?S = "run_of (gpr c RSP - 16) 16"
  have off: "off_gdt t + 34 \<le> 4096" using r by (simp add: tramp_ready_def length_blob)
  have stack: "?S \<inter> run_of ?A 4096 = {}" using r by (simp add: tramp_ready_def)
  obtain c1 where c1: "straight t (take 11 entry_code) c = Some c1" "same_control c c1" "\<not> int_enabled c1"
    "same_outside ?A 4096 (ram c) (ram c1)"
    and p1: "page ?A (ram c1) = splice (splice (splice (blob t @ ?rest)
      2 (to_le 4 (lo32 RCX c))) 6 (to_le 4 (lo32 RDX c))) 10 (to_le 4 (lo32 R8 c))"
    by (rule copy_part [OF r])
  obtain c2 where c2: "straight t (drop 11 (take 19 entry_code)) c1 = Some c2" "same_control c1 c2"
    "int_enabled c2 = int_enabled c1" "gpr c2 R12 = at t"
    and m2: "ram c2 = win_put ?A (ram c1) (off_gdt t + 26) (to_le 8 (?A + of_nat (off_gdt t)))"
    using patch_part [of t c1] by blast
  have p2: "page ?A (ram c2) = P"
    using off by (simp add: m2 page_put p1 blob_patched P)
  obtain c3 where c3: "straight t (drop 19 (take 23 entry_code)) c2 = Some c3" "same_control c2 c3"
    "int_enabled c3 = int_enabled c2" "gpr c3 R12 = at t" "ram c3 = ram c2" "gdt_loaded t c3"
    using lgdt_part [OF p2 [unfolded P] off c2(4)] by blast
  have rsp: "gpr c3 RSP = gpr c RSP" using c1(2) c2(2) c3(2) by (simp add: same_control_def)
  have pm: "page ?A m = P" if "\<And>z. z \<notin> ?S \<Longrightarrow> m z = ram c3 z" for m
    using page_same [of ?A m "ram c3"] that stack p2 c3(5) by auto
  have gdt: "descriptor (c3\<lparr>ram := m\<rparr>) 8 = Some CODE32_DESC" if "\<And>z. z \<notin> ?S \<Longrightarrow> m z = ram c3 z" for m
    using pm [OF that] P off c3(6) by (intro descriptors) (simp_all add: gdt_loaded_def)
  obtain c4 where c4: "exec t (drop 23 entry_code) c3 = Some (?A + of_nat off_code, c4)"
    "cs c4 = (8, CODE32_DESC)" "cr0 c4 = cr0 c3" "efer c4 = efer c3" "int_enabled c4 = int_enabled c3"
    "gdt_limit c4 = gdt_limit c3" "gdt_base c4 = gdt_base c3" "\<And>z. z \<notin> ?S \<Longrightarrow> ram c4 z = ram c3 z"
    using jump_part [OF c3(4), unfolded rsp, OF gdt] by auto
  show thesis
  proof (rule that)
    show "exec t entry_code c = Some (?A + of_nat off_code, c4)"
      by (subst entry_code_parts) (simp add: exec_append [OF c1(1)] exec_append [OF c2(1)] exec_append [OF c3(1)] c4(1))
    show "in_blob t P c4"
      using c4 c3(3,6) c2(3) c1(3) pm [OF c4(8)] by (simp add: in_blob_def gdt_loaded_def)
    show "cr0 c4 = cr0 c" "efer c4 = efer c" using c4 c1(2) c2(2) c3(2) by (simp_all add: same_control_def)
    show "ram c4 z = ram c z" if "z \<notin> run_of ?A 4096 \<union> ?S" for z
    proof -
      have "same_outside ?A 4096 (ram c1) (ram c2)" unfolding m2 using off by (intro bp.frame_put) simp
      from same_outside_run [OF this] same_outside_run [OF c1(4)] that have "ram c2 z = ram c z" by simp
      with c4(8) c3(5) that show ?thesis by simp
    qed
  qed
qed

section \<open>Out of long mode\<close>

lemma segments_part:
  assumes "descriptor c 16 = Some DATA32_DESC"
  shows "straight t set_segments c = Some (c\<lparr>gpr := (gpr c)(RAX := (gpr c RAX AND NOT 0xFFFF) OR 0x10),
    sreg := (\<lambda>_. (16, DATA32_DESC))\<rparr>)"
proof -
  have sel: "(ucast ((x AND NOT 0xFFFF) OR 0x10 :: u64) :: u16) = 0x10" for x
  proof -
    have "(ucast (NOT 0xFFFF :: u64) :: u16) = 0" by simp
    then show ?thesis unfolding unsigned_or_eq unsigned_and_eq by (simp only: and_zero_eq or.left_neutral) simp
  qed
  have d: "descriptor (c\<lparr>gpr := g, sreg := s\<rparr>) 16 = Some DATA32_DESC" "descriptor (c\<lparr>gpr := g\<rparr>) 16 = Some DATA32_DESC" for g s
    using assms by (simp_all add: descriptor_def split: if_splits)
  have s: "f(DS := x, ES := x, FS := x, GS := x, SS := x) = (\<lambda>_. x)" for f :: "sreg \<Rightarrow> u16 \<times> bytes" and x
  proof
    fix r show "(f(DS := x, ES := x, FS := x, GS := x, SS := x)) r = x" by (cases r) simp_all
  qed
  show ?thesis
    using segment_kinds(4) by (simp add: set_segments_def cpu_simps sel [simplified] d s)
qed

lemma masks:
  "\<not> bit (ucast ((w :: u32) AND 0x7FFFFFFF) :: u64) PG"
  "bit (ucast ((w OR 1) AND 0x7FFFFFFF :: u32) :: u64) PE"
  "\<not> bit (push_bit 32 (ucast (h :: u32)) OR ucast (w AND 0xFFFFFEFF) :: u64) LME"
  by (simp_all add: PG_def PE_def LME_def bit_simps)

text \<open>Protected mode, with paging and long mode off.\<close>

definition protected_mode :: "cpu \<Rightarrow> bool" where
  "protected_mode c \<longleftrightarrow> bit (cr0 c) PE \<and> \<not> bit (cr0 c) PG \<and> \<not> bit (efer c) LME \<and> \<not> bit (efer c) LMA"

definition tail_code :: "tramp \<Rightarrow> instr list" where
  "tail_code t =
     [MovFromCr0 RAX, AndImm32 RAX 0x7FFFFFFF, MovToCr0 RAX,
      Xor32 RAX, MovToCr3 RAX,
      MovImm32 RCX 0xC0000080, Rdmsr, AndImm32 RAX 0xFFFFFEFF, Wrmsr,
      MovFromCr0 RAX, OrImm32 RAX 1, AndImm32 RAX 0x7FFFFFFF, MovToCr0 RAX,
      FarJmp (ucast (TRAMP_ADDR + of_nat (off_pm32 t))) 0x08]"

lemma tail_part:
  assumes "in_blob t P c" and "P = patched t entry mbi magic @ rest" and "off_gdt t + 34 \<le> 4096"
  shows "\<exists>c'. exec t (tail_code t) c = Some (ucast (ucast (TRAMP_ADDR + of_nat (off_pm32 t)) :: u32), c') \<and>
    in_blob t P c' \<and> ram c' = ram c \<and> protected_mode c'"
proof -
  have blob: "page TRAMP_ADDR (ram c) = P" "gdt_loaded t c" "cs c = (8, CODE32_DESC)" "\<not> int_enabled c"
    using assms(1) by (simp_all add: in_blob_def)
  have d: "descriptor c' 8 = Some CODE32_DESC"
    if "ram c' = ram c" "gdt_limit c' = gdt_limit c" "gdt_base c' = gdt_base c" for c'
    using descriptors(1) [of c t entry mbi magic rest] blob(1,2) assms(2,3) that
    by (simp add: descriptor_def split: if_splits)
  have w: "write_cr0 (ucast (x AND 0x7FFFFFFF :: u32)) c' =
      Some (c'\<lparr>cr0 := ucast (x AND 0x7FFFFFFF), efer := unset_bit LMA (efer c')\<rparr>)"
    if "cs c' = (8, CODE32_DESC)" for x c'
    using masks(1) [of x] that segment_kinds(3) by (simp add: write_cr0_def)
  have we: "write_efer (push_bit 32 (ucast (h :: u32)) OR ucast (l AND 0xFFFFFEFF)) c' =
      Some (c'\<lparr>efer := unset_bit LMA (push_bit 32 (ucast h) OR ucast (l AND 0xFFFFFEFF))\<rparr>)"
    if "\<not> bit (cr0 c') PG" "\<not> bit (efer c') LMA" for h l c'
    using that by (simp add: write_efer_def)
  have off: "\<not> bit (unset_bit LMA e) LMA" "bit (unset_bit LMA e) LME = bit e LME" for e :: u64
    by (simp_all add: LMA_def LME_def bit_simps)
  show ?thesis
    using blob assms(1)
    by (simp add: tail_code_def cpu_simps w we d masks off lo32_wide segment_kinds MSR_EFER_def protected_mode_def
        in_blob_def gdt_loaded_def)
qed

lemma pm32_part:
  assumes "in_blob t P c" and "P = patched t entry mbi magic @ rest" and "off_gdt t + 34 \<le> 4096" and "protected_mode c"
  shows "\<exists>c'. exec t pm32_code c = Some (ucast entry, c') \<and> lo32 RAX c' = magic \<and> lo32 RBX c' = mbi \<and>
    lo32 RSP c' = 0x7C00 \<and> sreg c' = (\<lambda>_. (16, DATA32_DESC)) \<and> in_blob t P c' \<and> protected_mode c' \<and> ram c' = ram c"
proof -
  have blob: "page TRAMP_ADDR (ram c) = P" "gdt_loaded t c" "cs c = (8, CODE32_DESC)"
    using assms(1) by (simp_all add: in_blob_def)
  have d: "descriptor c 16 = Some DATA32_DESC"
    using descriptors(2) [of c t entry mbi magic rest] blob(1,2) assms(2,3) by simp
  have slot: "mem_read (ram c) (0x1000 + of_nat k) 4 = slice P k 4" if "k + 4 \<le> 4096" for k
    using mem_read_page [OF that, of "ram c" TRAMP_ADDR] blob(1) by (simp add: TRAMP_ADDR_def)
  note s = patched_slices(1-3) [OF assms(2)]
  have l: "mem_read (ram c) 0x100A 4 = to_le 4 magic" "mem_read (ram c) 0x1006 4 = to_le 4 mbi"
    "mem_read (ram c) 0x1002 4 = to_le 4 entry"
    using slot [of 10] slot [of 6] slot [of 2] s by simp_all
  define c1 where "c1 = c\<lparr>gpr := (gpr c)(RAX := (gpr c RAX AND NOT 0xFFFF) OR 0x10), sreg := (\<lambda>_. (16, DATA32_DESC))\<rparr>"
  have "straight t set_segments c = Some c1" unfolding c1_def by (rule segments_part [OF d])
  from exec_append [OF this, of "[MovImm32 RSP 0x7C00, Load32 RAX (ucast SLOT_MAGIC), Load32 RBX (ucast SLOT_MBI),
      Load32 RCX (ucast SLOT_ENTRY), Jmp RCX]"]
  show ?thesis
    using l blob(3) assms(1,4)
    by (simp add: pm32_code_def c1_def cpu_simps segment_kinds lo32_wide SLOT_MAGIC_def SLOT_MBI_def SLOT_ENTRY_def
        TRAMP_ADDR_def in_blob_def gdt_loaded_def protected_mode_def)
qed

lemma tramp_code_part:
  assumes "in_blob t P c" and "P = patched t entry mbi magic @ rest" and "off_gdt t + 34 \<le> 4096"
  shows "\<exists>c'. exec t (tramp_code t) c = Some (ucast (ucast (TRAMP_ADDR + of_nat (off_pm32 t)) :: u32), c') \<and>
    in_blob t P c' \<and> ram c' = ram c \<and> protected_mode c'"
proof -
  have d: "descriptor c 16 = Some DATA32_DESC"
    using descriptors(2) [of c t entry mbi magic rest] assms by (simp add: in_blob_def)
  define c1 where "c1 = c\<lparr>gpr := (gpr c)(RAX := (gpr c RAX AND NOT 0xFFFF) OR 0x10), sreg := (\<lambda>_. (16, DATA32_DESC))\<rparr>"
  have s: "straight t set_segments c = Some c1" unfolding c1_def by (rule segments_part [OF d])
  have "in_blob t P c1" using assms(1) by (simp add: in_blob_def gdt_loaded_def c1_def)
  from tail_part [OF this assms(2,3)] exec_append [OF s, of "tail_code t"] show ?thesis
    by (simp add: tramp_code_def tail_code_def [symmetric] c1_def)
qed

section \<open>Properties\<close>

text \<open>The machine a Multiboot kernel expects to be entered in.\<close>

definition multiboot_state :: "cpu \<Rightarrow> u32 \<Rightarrow> u32 \<Rightarrow> bool" where
  "multiboot_state c magic mbi \<longleftrightarrow> lo32 RAX c = magic \<and> lo32 RBX c = mbi \<and>
     code32_segment (snd (cs c)) \<and> seg_base (snd (cs c)) = 0 \<and> seg_limit (snd (cs c)) = 0xFFFFFFFF \<and>
     (\<forall>r. data_segment (snd (sreg c r)) \<and> seg_base (snd (sreg c r)) = 0 \<and> seg_limit (snd (sreg c r)) = 0xFFFFFFFF) \<and>
     protected_mode c \<and> \<not> int_enabled c"

text \<open>The whole run: the two jumps land on the code of the blob, and the last one on the kernel.\<close>

lemma boot_jump_to_kernel_runs:
  assumes "tramp_ready t c"
  obtains c' P where "boot_jump_to_kernel t c = Some (ucast (lo32 RCX c), c')"
    and "lo32 RAX c' = lo32 R8 c" and "lo32 RBX c' = lo32 RDX c" and "lo32 RSP c' = 0x7C00"
    and "sreg c' = (\<lambda>_. (16, DATA32_DESC))" and "in_blob t P c'" and "protected_mode c'"
    and "\<And>z. z \<notin> run_of TRAMP_ADDR 4096 \<union> run_of (gpr c RSP - 16) 16 \<Longrightarrow> ram c' z = ram c z"
proof -
  let ?P = "patched t (lo32 RCX c) (lo32 RDX c) (lo32 R8 c) @ drop (length (blob t)) (page TRAMP_ADDR (ram c))"
  have off: "off_gdt t + 34 \<le> 4096" using assms by (simp add: tramp_ready_def length_blob)
  obtain c1 where c1: "exec t entry_code c = Some (TRAMP_ADDR + of_nat off_code, c1)" "in_blob t ?P c1"
    and f1: "\<And>z. z \<notin> run_of TRAMP_ADDR 4096 \<union> run_of (gpr c RSP - 16) 16 \<Longrightarrow> ram c1 z = ram c z"
    using entry_part [OF assms refl] by blast
  obtain c2 where c2: "exec t (tramp_code t) c1 = Some (ucast (ucast (TRAMP_ADDR + of_nat (off_pm32 t)) :: u32), c2)"
    "in_blob t ?P c2" "ram c2 = ram c1" "protected_mode c2"
    using tramp_code_part [OF c1(2) refl off] by blast
  obtain c3 where c3: "exec t pm32_code c2 = Some (ucast (lo32 RCX c), c3)" "lo32 RAX c3 = lo32 R8 c"
    "lo32 RBX c3 = lo32 RDX c" "lo32 RSP c3 = 0x7C00" "sreg c3 = (\<lambda>_. (16, DATA32_DESC))" "in_blob t ?P c3"
    "protected_mode c3" "ram c3 = ram c2"
    using pm32_part [OF c2(2) refl off c2(4)] by blast
  have n: "off_code + length (code_bytes t) \<le> 4096" "off_pm32 t + length (pm32_bytes t) \<le> 4096"
    using off by (simp_all add: off_pm32_def off_code_def off_gdt_def head_bytes_def)
  have page: "page TRAMP_ADDR (ram c1) = ?P" using c1(2) by (simp add: in_blob_def)
  have f2: "fetch t (ram c1) (TRAMP_ADDR + of_nat off_code) = Some (tramp_code t)"
    using mem_read_page [OF n(1), of "ram c1" TRAMP_ADDR] patched_slices(4) [OF page] by (simp add: fetch_def)
  have "unat (of_nat (off_pm32 t) :: u64) = off_pm32 t" using n(2) by (intro unat_offset) simp
  then have u: "unat (TRAMP_ADDR + of_nat (off_pm32 t)) = 0x1000 + off_pm32 t"
    using n(2) by (subst unat_add_no_overflow) (simp_all add: TRAMP_ADDR_def)
  then have a: "ucast (ucast (TRAMP_ADDR + of_nat (off_pm32 t)) :: u32) = TRAMP_ADDR + of_nat (off_pm32 t)"
    using n(2) by (simp add: word_unat_eq_iff unat_narrow32)
  have "unat (of_nat off_code :: u64) = off_code" by (intro unat_offset) (simp add: off_code_def)
  then have "unat (TRAMP_ADDR + of_nat off_code) = 0x1000 + off_code"
    by (subst unat_add_no_overflow) (simp_all add: TRAMP_ADDR_def off_code_def)
  then have ne: "TRAMP_ADDR + of_nat (off_pm32 t) \<noteq> TRAMP_ADDR + of_nat off_code"
    using u assms by (auto simp: word_unat_eq_iff off_pm32_def tramp_ready_def)
  have f3: "fetch t (ram c1) (TRAMP_ADDR + of_nat (off_pm32 t)) = Some pm32_code"
    using mem_read_page [OF n(2), of "ram c1" TRAMP_ADDR] patched_slices(5) [OF page] ne by (simp add: fetch_def)
  have "boot_jump_to_kernel t c = Some (ucast (lo32 RCX c), c3)"
    by (simp add: boot_jump_to_kernel_def numeral_2_eq_2 c1(1) f2 c2(1,3) a f3 c3(1))
  then show ?thesis by (rule that [OF _ c3(2-7)]) (simp add: c3(8) c2(3) f1)
qed

lemma multiboot_state_entered:
  assumes "lo32 RAX c = magic" and "lo32 RBX c = mbi" and "sreg c = (\<lambda>_. (16, DATA32_DESC))"
    and "in_blob t P c" and "protected_mode c"
  shows "multiboot_state c magic mbi"
  using assms segment_kinds by (simp add: multiboot_state_def in_blob_def)

text \<open>
  C5: the trampoline. From 64-bit code with paging on, a 32-bit kernel is entered at the entry
  point in the machine state the Multiboot specification asks for: the magic number in \<open>EAX\<close>, the
  address of the information in \<open>EBX\<close>, flat 4 GiB segments, protected mode with paging, long mode
  and interrupts off. All that is written in memory is the page at \<open>0x1000\<close> and sixteen bytes of
  the stack in use, so a kernel, modules or information elsewhere arrive as they were.
\<close>

theorem boot_jump_to_kernel_enters:
  assumes "tramp_ready t c"
  shows "\<exists>c'. boot_jump_to_kernel t c = Some (ucast (lo32 RCX c), c') \<and>
    multiboot_state c' (lo32 R8 c) (lo32 RDX c) \<and> lo32 RSP c' = 0x7C00 \<and>
    (\<forall>z. z \<notin> run_of TRAMP_ADDR 4096 \<union> run_of (gpr c RSP - 16) 16 \<longrightarrow> ram c' z = ram c z)"
proof -
  obtain c' P where c': "boot_jump_to_kernel t c = Some (ucast (lo32 RCX c), c')"
    "lo32 RAX c' = lo32 R8 c" "lo32 RBX c' = lo32 RDX c" "lo32 RSP c' = 0x7C00"
    "sreg c' = (\<lambda>_. (16, DATA32_DESC))" "in_blob t P c'" "protected_mode c'"
    and frame: "\<And>z. z \<notin> run_of TRAMP_ADDR 4096 \<union> run_of (gpr c RSP - 16) 16 \<Longrightarrow> ram c' z = ram c z"
    using boot_jump_to_kernel_runs [OF assms] by blast
  have "multiboot_state c' (lo32 R8 c) (lo32 RDX c)"
    by (rule multiboot_state_entered [OF c'(2,3,5-7)])
  with c'(1,4) frame show ?thesis by blast
qed

text \<open>
  The direct handoff. A 64-bit kernel is entered at its entry point with \<open>BANG\<close> in \<open>RDI\<close> and
  the boot information in \<open>RSI\<close>, as the System V convention has it, interrupts off, a stack at
  \<open>0x7C00\<close>, and nothing written in memory.
\<close>

theorem boot_handoff_64_enters:
  assumes "code64_segment (snd (cs c))"
  shows "\<exists>c'. boot_handoff_64 t c = Some (gpr c RCX, c') \<and> gpr c' RDI = 0x42414E47 \<and> gpr c' RSI = gpr c RDX \<and>
    gpr c' RSP = 0x7C00 \<and> \<not> int_enabled c' \<and> ram c' = ram c \<and> cs c' = cs c \<and> cr0 c' = cr0 c \<and> efer c' = efer c"
  using assms by (simp add: boot_handoff_64_def handoff_code_def cpu_simps)

section \<open>A processor to start from\<close>

definition demo_tramp :: tramp where
  "demo_tramp = \<lparr>at = 0x200000, code_bytes = [0x66, 0xB8], pm32_bytes = [0x90], pad_bytes = [0]\<rparr>"

definition demo_cpu :: cpu where
  "demo_cpu = \<lparr>gpr = (\<lambda>_. 0)(RCX := 0x100000, RDX := 0x7000, R8 := 0x36D76289, RSP := 0x300000), cr0 = 0x80000001, cr3 = 0x1000,
     efer = 0x500, int_enabled = True, backwards = False, gdt_limit = 0, gdt_base = 0,
     cs = (8, [0, 0, 0, 0, 0, 0x9A, 0x20, 0]), sreg = (\<lambda>_. (0, [])),
     ram = mem_write (\<lambda>_. 0) 0x200000 (blob demo_tramp)\<rparr>"

lemma run_of_disjoint:
  assumes "unat a + n \<le> unat b" and "unat b + k \<le> 2 ^ 64"
  shows "run_of b k \<inter> run_of a n = {}"
proof -
  have "unat x \<ge> unat b" if "x \<in> run_of b k" for x
  proof -
    obtain i where i: "x = b + of_nat i" "i < 2 ^ 64" by (rule offset_exhaust)
    with that have "i < k" by (simp add: run_of_def)
    then have "unat (b + of_nat i) = unat b + i"
      using assms(2) i(2) by (subst unat_add_no_overflow) (simp_all add: unat_offset)
    with i show ?thesis by simp
  qed
  moreover have "unat x < unat a + n" if "x \<in> run_of a n" for x
  proof -
    obtain i where i: "x = a + of_nat i" "i < 2 ^ 64" by (rule offset_exhaust)
    with that have "i < n" by (simp add: run_of_def)
    then have "unat (a + of_nat i) = unat a + i"
      using assms i(2) by (subst unat_add_no_overflow) (simp_all add: unat_offset)
    with i \<open>i < n\<close> show ?thesis by simp
  qed
  ultimately show ?thesis using assms(1) by fastforce
qed

lemma demo_tramp_ready: "tramp_ready demo_tramp demo_cpu"
proof -
  have l: "length (blob demo_tramp) = 52"
    by (simp add: length_blob off_gdt_def head_bytes_def demo_tramp_def)
  have "mem_read (ram demo_cpu) 0x200000 52 = blob demo_tramp"
    using mem_read_write_same [of "blob demo_tramp" "\<lambda>_. 0" "0x200000"] l by (simp add: demo_cpu_def)
  moreover have "run_of 0x200000 52 \<inter> run_of TRAMP_ADDR 4096 = {}" "run_of 0x2FFFF0 16 \<inter> run_of TRAMP_ADDR 4096 = {}"
    by (rule run_of_disjoint; simp add: TRAMP_ADDR_def)+
  ultimately show ?thesis
    using l by (simp add: tramp_ready_def demo_cpu_def demo_tramp_def code64_segment_def code_segment_def PG_def PE_def)
qed

theorem boot_jump_to_kernel_enters_witness:
  "\<exists>c'. boot_jump_to_kernel demo_tramp demo_cpu = Some (0x100000, c') \<and> multiboot_state c' 0x36D76289 0x7000"
  using boot_jump_to_kernel_enters [OF demo_tramp_ready] by (auto simp: lo32_def demo_cpu_def)

theorem boot_handoff_64_enters_witness:
  "\<exists>c'. boot_handoff_64 demo_tramp demo_cpu = Some (0x100000, c') \<and> gpr c' RSI = 0x7000"
  using boot_handoff_64_enters [of demo_cpu demo_tramp]
  by (auto simp: demo_cpu_def code64_segment_def code_segment_def)

end
