(* ===== verification/BootFlow.thy ===== *)
theory BootFlow
  imports ElfKernel Multiboot1 Multiboot2 Gop Modules Menu Linux Discover Chain Trampoline
begin

text \<open>
  \<open>main.rs\<close>: from the configuration to the kernel. A run's result says how it ends; \<open>None\<close> is a
  run that does not: a menu nobody answers, a directory loop that never advances, an image that was
  started and does not return.
\<close>

section \<open>The flow\<close>

definition MB1_BOOT_MAGIC :: u32 where "MB1_BOOT_MAGIC = 0x2BADB002"
definition MB2_BOOT_MAGIC :: u32 where "MB2_BOOT_MAGIC = 0x36D76289"

text \<open>What is installed, after what was written down, unless it is there already.\<close>

definition already :: "config \<Rightarrow> found \<Rightarrow> bool" where
  "already c found \<longleftrightarrow> list_ex (\<lambda>e. case target e of
     Chainload p device \<Rightarrow> p = found_path found \<and>
       (case device of Some d \<Rightarrow> d | None \<Rightarrow> found_device found) = found_device found
   | _ \<Rightarrow> False) (entries c)"

definition add_found :: "found \<Rightarrow> config \<Rightarrow> config" where
  "add_found found c = (if already c found then c
     else c\<lparr>entries := entries c @
       [\<lparr>title = found_title found, target = Chainload (found_path found) (Some (found_device found))\<rparr>]\<rparr>)"

definition full_config :: "'f firmware \<Rightarrow> (scalar \<Rightarrow> ustr) \<Rightarrow> 'f \<Rightarrow> (config \<times> 'f) option" where
  "full_config F up f =
     (case load F f of (r, f) \<Rightarrow>
        let c = (case r of None \<Rightarrow> builtin | Some (c, _) \<Rightarrow> c)
        in if autodetect c
           then (case scan F up f of
                   None \<Rightarrow> None
                 | Some (found, f) \<Rightarrow> Some (fold add_found found c, f))
           else Some (c, f))"

text \<open>
  How a run ends: with a status returned to the firmware, with one of the panics (an entry that is
  not there among them), or in a kernel.
\<close>

datatype ending =
    Exited status
  | NoSuchEntry
  | LoadPanicked load_panic
  | ModulesPanicked modules_panic
  | CommandLinePanicked
  | InLinux u64 u64
  | InKernel32 u32 u32 u32
  | InKernel64 u64 u64

definition linux_ending :: "linux_result \<Rightarrow> ending" where
  "linux_ending r = (case r of
     Returned s \<Rightarrow> Exited s | LinuxPanic \<Rightarrow> CommandLinePanicked | Handover entry params \<Rightarrow> InLinux entry params)"

text \<open>After the last call to the firmware: the information is written and the kernel entered.\<close>

definition enter_kernel :: "kernel_info \<Rightarrow> mem_desc list \<Rightarrow> fb_info option \<Rightarrow> module_info list \<Rightarrow>
    rsdp option \<Rightarrow> 'f mach \<Rightarrow> (ending \<times> 'f mach) option" where
  "enter_kernel ki memory_map fb mods r st =
     (case boot_mode ki of
        Protected32 \<Rightarrow>
          if mb_version ki = 1 then
            (case build_mb1_info memory_map mods st of
               (addr, st) \<Rightarrow> Some (InKernel32 (ucast (entry_point ki)) addr MB1_BOOT_MAGIC, st))
          else
            (case build_mb2_info memory_map fb mods r st of
               None \<Rightarrow> None
             | Some (addr, st) \<Rightarrow> Some (InKernel32 (ucast (entry_point ki)) addr MB2_BOOT_MAGIC, st))
      | Long64 \<Rightarrow>
          if mb_version ki = 2 then
            (case build_mb2_info memory_map fb mods r st of
               None \<Rightarrow> None
             | Some (addr, st) \<Rightarrow> Some (InKernel64 (entry_point ki) (ucast addr), st))
          else Some (InKernel64 (entry_point ki) 0, st))"

definition boot_modules :: "'f firmware \<Rightarrow> cstr16 option \<Rightarrow> 'f mach \<Rightarrow> ((modules_panic + module_info list) \<times> 'f mach) option" where
  "boot_modules F modules_path st =
     (case modules_path of Some dir \<Rightarrow> load_modules F dir st | None \<Rightarrow> Some (Inr [], st))"

text \<open>The framebuffer and the root pointer, for a Multiboot2 kernel.\<close>

definition display_info :: "'f firmware \<Rightarrow> u32 \<Rightarrow> 'f mach \<Rightarrow> fb_info option \<times> rsdp option \<times> 'f mach" where
  "display_info F version st =
     (if version = 2 then
        (case query_gop F (fw st) of (fb, f) \<Rightarrow>
           let st = st\<lparr>fw := f\<rparr> in (fb, find_rsdp F st, st))
      else (None, None, st))"

definition boot_multiboot :: "'f firmware \<Rightarrow> cstr16 \<Rightarrow> cstr16 option \<Rightarrow> 'f mach \<Rightarrow> (ending \<times> 'f mach) option" where
  "boot_multiboot F kernel_path modules_path st =
     (case load_kernel F kernel_path st of
        None \<Rightarrow> None
      | Some (Inl p, st) \<Rightarrow> Some (LoadPanicked p, st)
      | Some (Inr ki, st) \<Rightarrow>
     (case boot_modules F modules_path st of
        None \<Rightarrow> None
      | Some (Inl p, st) \<Rightarrow> Some (ModulesPanicked p, st)
      | Some (Inr mods, st) \<Rightarrow>
     (case display_info F (mb_version ki) st of (fb, r, st) \<Rightarrow>
     (case reserve F st of
        (False, st) \<Rightarrow> Some (Exited OUT_OF_RESOURCES, st)
      | (True, st) \<Rightarrow>
     (case exit_boot_services F LOADER_DATA (fw st) of (memory_map, f) \<Rightarrow>
        enter_kernel ki memory_map fb mods r (st\<lparr>fw := f\<rparr>))))))"

definition boot_entry :: "'f firmware \<Rightarrow> target \<Rightarrow> 'f mach \<Rightarrow> (ending \<times> 'f mach) option" where
  "boot_entry F tgt st =
     (case tgt of
        Multiboot k mods \<Rightarrow> boot_multiboot F k mods st
      | Chainload p device \<Rightarrow>
          (case chain_boot F device p (fw st) of
             None \<Rightarrow> None
           | Some (s, f) \<Rightarrow> Some (Exited s, st\<lparr>fw := f\<rparr>))
      | Linux k initrd cmd \<Rightarrow>
          (case linux_boot F k initrd cmd st of (r, st) \<Rightarrow> Some (linux_ending r, st)))"

definition main :: "'f firmware \<Rightarrow> (scalar \<Rightarrow> ustr) \<Rightarrow> 'f mach \<Rightarrow> (ending \<times> 'f mach) option" where
  "main F up st =
     (case full_config F up (fw st) of
        None \<Rightarrow> None
      | Some (c, f) \<Rightarrow>
          (case choose_entry F c f of
             None \<Rightarrow> None
           | Some (choice, f) \<Rightarrow>
               if choice < length (entries c) then boot_entry F (target (entries c ! choice)) (st\<lparr>fw := f\<rparr>)
               else Some (NoSuchEntry, st\<lparr>fw := f\<rparr>)))"

section \<open>The list of entries\<close>

lemma add_found_simps [simp]:
  "timeout (add_found x c) = timeout c" "default_entry (add_found x c) = default_entry c"
  "autodetect (add_found x c) = autodetect c"
  by (simp_all add: add_found_def)

definition offers :: "config \<Rightarrow> found \<Rightarrow> bool" where
  "offers c x \<longleftrightarrow> (\<exists>e \<in> set (entries c). \<exists>d. target e = Chainload (found_path x) d \<and>
     (d = None \<or> d = Some (found_device x)))"

lemma already_offers: "already c x \<longleftrightarrow> offers c x"
proof -
  have "(case target e of
     Chainload p device \<Rightarrow> p = found_path x \<and>
       (case device of Some d \<Rightarrow> d | None \<Rightarrow> found_device x) = found_device x
   | _ \<Rightarrow> False) \<longleftrightarrow>
     (\<exists>d. target e = Chainload (found_path x) d \<and> (d = None \<or> d = Some (found_device x)))" for e :: entry
    by (cases "target e") (auto split: option.splits)
  then show ?thesis by (simp add: already_def offers_def list_ex_iff)
qed

lemma offers_add: "offers (add_found x c) x" "offers c y \<Longrightarrow> offers (add_found x c) y"
  by (auto simp: add_found_def already_offers) (auto simp: offers_def)

lemma offers_fold: "offers c y \<Longrightarrow> offers (fold add_found xs c) y"
  by (induction xs arbitrary: c) (auto simp: offers_add)

lemma offers_found: "y \<in> set xs \<Longrightarrow> offers (fold add_found xs c) y"
  by (induction xs arbitrary: c) (auto simp: offers_add offers_fold)

lemma fold_add_found:
  "\<exists>es. entries (fold add_found xs c) = entries c @ es \<and> distinct (map target es) \<and>
     (\<forall>e \<in> set es. \<exists>x \<in> set xs. e = \<lparr>title = found_title x, target = Chainload (found_path x) (Some (found_device x))\<rparr> \<and>
        target e \<notin> target ` set (entries c))"
proof (induction xs rule: rev_induct)
  case (snoc x xs)
  let ?c = "fold add_found xs c" and ?e = "\<lparr>title = found_title x, target = Chainload (found_path x) (Some (found_device x))\<rparr>"
  from snoc obtain es where es: "entries ?c = entries c @ es" "distinct (map target es)"
    "\<forall>e \<in> set es. \<exists>x \<in> set xs. e = \<lparr>title = found_title x, target = Chainload (found_path x) (Some (found_device x))\<rparr> \<and>
        target e \<notin> target ` set (entries c)"
    by blast
  define c' where "c' = ?c"
  have step: "fold add_found (xs @ [x]) c = add_found x c'" by (simp add: c'_def)
  note es = es [folded c'_def]
  show ?case unfolding step
  proof (cases "already c' x")
    case True
    with es show "\<exists>es. entries (add_found x c') = entries c @ es \<and> distinct (map target es) \<and>
     (\<forall>e \<in> set es. \<exists>x \<in> set (xs @ [x]). e = \<lparr>title = found_title x, target = Chainload (found_path x) (Some (found_device x))\<rparr> \<and>
        target e \<notin> target ` set (entries c))"
      by (intro exI [of _ es]) (auto simp: add_found_def)
  next
    case False
    then have new: "target ?e \<notin> target ` set (entries c')" by (auto simp: already_offers offers_def image_iff) metis
    with es(1) have "target ?e \<notin> target ` set (entries c)" "target ?e \<notin> target ` set es" by auto
    with es False show "\<exists>es. entries (add_found x c') = entries c @ es \<and> distinct (map target es) \<and>
     (\<forall>e \<in> set es. \<exists>x \<in> set (xs @ [x]). e = \<lparr>title = found_title x, target = Chainload (found_path x) (Some (found_device x))\<rparr> \<and>
        target e \<notin> target ` set (entries c))"
      by (intro exI [of _ "es @ [?e]"]) (auto simp: add_found_def)
  qed
qed simp

section \<open>What is offered, and what the choice leads to\<close>

lemma fold_add_found_simps [simp]:
  "timeout (fold add_found xs c) = timeout c" "default_entry (fold add_found xs c) = default_entry c"
  by (induction xs arbitrary: c) simp_all


lemma boot_entry_not_missing: "boot_entry F t st \<noteq> Some (NoSuchEntry, st')"
  by (cases t) (auto simp: boot_entry_def boot_multiboot_def enter_kernel_def linux_ending_def
      split: option.splits prod.splits sum.splits bool.splits boot_mode.splits if_splits linux_result.splits)

text \<open>The default is an entry, whenever there is one.\<close>

lemma load_default:
  assumes "fst (load F f) = Some (c, ns)"
  shows "default_entry c = 0 \<or> default_entry c < length (entries c)"
proof -
  obtain contents where c: "(c, ns) = parse (cstr16_of F) contents" using assms unfolding load_is_parse by blast
  have "config_ok (cstr16_of F) (fst (finish (fold (line_step (cstr16_of F)) (str_lines contents) initial_parser)))"
    by (intro finish_ok fold_line_step_ok) (simp add: initial_parser_def entries_ok_def)
  then have "config_ok (cstr16_of F) c"
    by (simp add: fst_conv [of c ns, unfolded c, symmetric] parse_def parse_lines_def)
  then show ?thesis by (auto simp: config_ok_def split: if_splits)
qed

lemma full_config_default:
  assumes "full_config F up f = Some (c, f')" and "entries c \<noteq> []"
  shows "default_entry c < length (entries c)"
proof -
  obtain r f1 where l: "load F f = (r, f1)" by force
  define c0 where "c0 = (case r of None \<Rightarrow> builtin | Some (c, _) \<Rightarrow> c)"
  have d: "default_entry c0 = 0 \<or> default_entry c0 < length (entries c0)"
    using load_default [of F f] l by (auto simp: c0_def builtin_def split: option.splits)
  have "c = c0 \<or> (\<exists>found. c = fold add_found found c0)"
    using assms(1) l by (cases r) (auto simp: full_config_def c0_def Let_def split: option.splits if_splits)
  then obtain es where "default_entry c = default_entry c0" "entries c = entries c0 @ es"
    using fold_add_found [of _ c0] by fastforce
  with d assms(2) show ?thesis by auto
qed

lemma choose_entry_index:
  assumes "choose_entry F c f = Some (i, f')" and "default_entry c < length (entries c)"
  shows "i < length (entries c)"
proof (cases "length (entries c) \<le> 1 \<or> timeout c = 0")
  case False
  then obtain lo g g' where "choose_loop F lo c (start_menu c) g = Some (i, g')"
    using assms(1) by (auto simp: choose_entry_def Let_def split: prod.splits option.splits)
  from choose_loop_runs [OF this] obtain ks where "menu_run (length (entries c)) (start_menu c) ks i" by blast
  moreover have "menu_ok (length (entries c)) (start_menu c)"
    using False assms(2) by (simp add: menu_ok_def start_menu_def word_neq_0_conv)
  ultimately show ?thesis using menu_run_index by blast
qed (use assms in \<open>auto simp: choose_entry_def\<close>)

text \<open>
  C10: \<open>main\<close> boots one of its entries: with anything to offer, the index of the choice is never out
  of range, and the run ends the way booting the chosen entry ends. Only a configuration that
  empties itself (no entry, no loader found) makes it panic, before any menu.
\<close>

theorem main_boots_an_entry:
  assumes "full_config F up (fw st) = Some (c, f)" and "main F up st = Some (e, st')"
  shows "if entries c = [] then e = NoSuchEntry \<and> st' = st\<lparr>fw := f\<rparr>
    else e \<noteq> NoSuchEntry \<and> (\<exists>i f'. i < length (entries c) \<and> choose_entry F c f = Some (i, f') \<and>
      boot_entry F (target (entries c ! i)) (st\<lparr>fw := f'\<rparr>) = Some (e, st'))"
proof (cases "entries c = []")
  case True
  with assms show ?thesis by (simp add: main_def choose_entry_def)
next
  case False
  obtain i f' where ch: "choose_entry F c f = Some (i, f')"
    using assms by (auto simp: main_def split: option.splits)
  have i: "i < length (entries c)" by (rule choose_entry_index [OF ch full_config_default [OF assms(1) False]])
  with assms ch have "boot_entry F (target (entries c ! i)) (st\<lparr>fw := f'\<rparr>) = Some (e, st')"
    by (simp add: main_def)
  with boot_entry_not_missing i ch False show ?thesis by auto
qed

section \<open>Examples\<close>

text \<open>The disk of the scan's examples, which holds no configuration file and no kernel.\<close>

lemma demo_disk_load: "load demo_disk [] = (None, [])"
proof -
  have "lit16 [CHR 0x5C] @ lit16 ''bang.cfg'' \<noteq> EFI_DIR" "\<not> is_file demo_volume (lit16 [CHR 0x5C] @ lit16 ''bang.cfg'')"
    by (simp_all add: demo_volume_def EFI_DIR_def WINDOWS_def loader_path_def sep_def lit16_def)
  then show ?thesis by (simp add: load_def demo_disk_def demo_fw_def)
qed

lemma demo_disk_config:
  "\<exists>f'. full_config demo_disk (\<lambda>c. [c]) [] = Some (fold add_found (volume_found demo_disk (\<lambda>c. [c]) None 7 demo_volume) builtin, f')"
proof -
  obtain f' where "scan demo_disk (\<lambda>c. [c]) [] = Some (volume_found demo_disk (\<lambda>c. [c]) None 7 demo_volume, f')"
    using scan_volumes_finds [OF demo_disk_serves, of "\<lambda>c. [c]" None "[7]" "[]" "[]"]
    by (auto simp: scan_def demo_disk_start)
  then show ?thesis by (simp add: full_config_def demo_disk_load Let_def builtin_def)
qed


lemma demo_disk_kernel: "load_kernel demo_disk (lit16 [CHR 0x5C] @ lit16 ''kernel.bin'') st = Some (Inl KernelNotFound, st)"
proof -
  have "lit16 [CHR 0x5C] @ lit16 ''kernel.bin'' \<noteq> EFI_DIR" "\<not> is_file demo_volume (lit16 [CHR 0x5C] @ lit16 ''kernel.bin'')"
    by (simp_all add: demo_volume_def EFI_DIR_def WINDOWS_def loader_path_def sep_def lit16_def)
  then show ?thesis by (simp add: load_kernel_def read_kernel_def demo_disk_def demo_fw_def)
qed

theorem main_boots_an_entry_witness:
  "\<exists>c f st' i f'. full_config demo_disk (\<lambda>c. [c]) [] = Some (c, f) \<and>
    main demo_disk (\<lambda>c. [c]) demo_mach = Some (LoadPanicked KernelNotFound, st') \<and>
    i < length (entries c) \<and> choose_entry demo_disk c f = Some (i, f')"
proof -
  define c where "c = fold add_found (volume_found demo_disk (\<lambda>c. [c]) None 7 demo_volume) builtin"
  obtain f where f: "full_config demo_disk (\<lambda>c. [c]) (fw demo_mach) = Some (c, f)"
    using demo_disk_config by (auto simp: c_def demo_mach_def)
  obtain es where es: "entries c = entries builtin @ es"
    using fold_add_found [of _ builtin] unfolding c_def by blast
  have "timeout c = 0" "default_entry c = 0" by (simp_all add: c_def builtin_def)
  then have "choose_entry demo_disk c f = Some (0, f)" by (simp add: choose_entry_def)
  with f es have m: "main demo_disk (\<lambda>c. [c]) demo_mach = Some (LoadPanicked KernelNotFound, demo_mach\<lparr>fw := f\<rparr>)"
    by (simp add: main_def boot_entry_def builtin_def boot_multiboot_def demo_disk_kernel del: lit16_Cons)
  have "entries c \<noteq> []" by (simp add: es builtin_def)
  with main_boots_an_entry [OF f m] m f show ?thesis by (auto simp: demo_mach_def)
qed

end
