(* ===== verification/BootLoaded.thy ===== *)
theory BootLoaded
  imports BootFlow
begin

text \<open>
  What a Multiboot boot delivers. The kernel's segments, the modules and their names are \<open>loaded\<close>;
  each later stage keeps them, since it writes only memory that was free before it, down to the
  information structure, and the kernel is entered with all of it in place.
\<close>

section \<open>What a boot relies on\<close>

text \<open>
  Beside the contracts of the modules: looking at the display and leaving boot services take no
  memory back, and files are smaller than the address space. The loader starts with an empty table
  of claims and its name buffer in memory of its own.
\<close>

definition boot_contract :: "'f firmware \<Rightarrow> ('f \<Rightarrow> u64 set) \<Rightarrow> bool" where
  "boot_contract F owned \<longleftrightarrow> modules_contract F owned \<and>
     (\<forall>f. owned f \<subseteq> owned (snd (get_gop_handle F f))) \<and> (\<forall>h f. owned f \<subseteq> owned (snd (open_gop F h f))) \<and>
     (\<forall>ty f. owned f \<subseteq> owned (snd (exit_boot_services F ty f)))"

definition fresh_start :: "('f \<Rightarrow> u64 set) \<Rightarrow> 'f mach \<Rightarrow> bool" where
  "fresh_start owned st \<longleftrightarrow> names_safe owned st \<and> length (ALLOC_PAGES st) = 32 \<and> ALLOC_COUNT st = 0"

lemma boot_contractD:
  assumes "boot_contract F owned"
  shows "modules_contract F owned" "alloc_contract F owned" "max_address_contract F" "files_contract F owned"
    "exit_boot_services F ty f = (ds, f') \<Longrightarrow> owned f \<subseteq> owned f'"
    "query_gop F f = (fb, f') \<Longrightarrow> owned f \<subseteq> owned f'"
proof -
  show m: "modules_contract F owned" using assms by (simp add: boot_contract_def)
  then show "alloc_contract F owned" "max_address_contract F" "files_contract F owned"
    by (simp_all add: modules_contract_def)
  show "exit_boot_services F ty f = (ds, f') \<Longrightarrow> owned f \<subseteq> owned f'"
    using assms unfolding boot_contract_def by (metis snd_conv)
  have g: "get_gop_handle F f = (h, f1) \<Longrightarrow> owned f \<subseteq> owned f1" for f h f1
    using assms unfolding boot_contract_def by (metis snd_conv)
  have o: "open_gop F x f = (h, f1) \<Longrightarrow> owned f \<subseteq> owned f1" for x f h f1
    using assms unfolding boot_contract_def by (metis snd_conv)
  show "query_gop F f = (fb, f') \<Longrightarrow> owned f \<subseteq> owned f'"
    by (auto simp: query_gop_def split: prod.splits option.splits if_splits dest!: g o)
qed

section \<open>The kernel and its modules, from loading to the jump\<close>

text \<open>What has been loaded: the kernel's segments and the modules, and where neither lies.\<close>

definition mods_loaded :: "'f firmware \<Rightarrow> ('f \<Rightarrow> u64 set) \<Rightarrow> module_info list \<Rightarrow> 'f mach \<Rightarrow> bool" where
  "mods_loaded F owned mods st \<longleftrightarrow> names_safe owned st \<and> modules_held F owned st mods"

definition loaded :: "'f firmware \<Rightarrow> ('f \<Rightarrow> u64 set) \<Rightarrow> bytes \<Rightarrow> module_info list \<Rightarrow> 'f mach \<Rightarrow> bool" where
  "loaded F owned img mods st \<longleftrightarrow> mods_loaded F owned mods st \<and>
     (\<forall>s \<in> set (elf_segments img). seg_loaded (mem st) img s \<and> seg_range s \<subseteq> owned (fw st) - names_range st)"

lemma seg_loaded_same:
  assumes "seg_loaded m b s" and "\<And>x. x \<in> seg_range s \<Longrightarrow> m' x = m x"
  shows "seg_loaded m' b s"
  using assms seg_byte_in_range [of _ s] by (simp add: seg_loaded_def)

lemma read_kernel_length:
  "fst (read_kernel F kp f) = Inr img \<Longrightarrow> length img < 2 ^ 64"
  using unat_u64_bound by (auto simp: read_kernel_def split: prod.splits option.splits if_splits)

lemma read_kernel_owned:
  assumes "files_contract F owned" and "read_kernel F kp f = (r, f')"
  shows "owned f' = owned f"
  using assms(2)
  by (auto simp: read_kernel_def split: prod.splits option.splits if_splits dest!: files_contractD [OF assms(1)])

text \<open>It depends on the memory that is handed out, and on nothing else in it.\<close>

lemma names_ok_cong:
  assumes "MOD_NAMES st' = MOD_NAMES st" and "MOD_NAMES_POS st' = MOD_NAMES_POS st"
    and "\<And>x. x \<in> names_range st \<Longrightarrow> mem st' x = mem st x" and "names_ok st"
  shows "names_ok st'"
proof (cases "MOD_NAMES_POS st = 0")
  case False
  then have "MOD_NAMES_POS st - 1 < 4096" using assms(4) by (auto simp: names_ok_def NAMES_CAP_def)
  then have "MOD_NAMES st + of_nat (MOD_NAMES_POS st - 1) \<in> names_range st"
    by (simp add: names_range_def in_range_def unat_of_nat NAMES_CAP_def del: of_nat_diff)
  from assms(3) [OF this] assms(1,2,4) show ?thesis by (simp add: names_ok_def del: of_nat_diff)
qed (use assms in \<open>simp add: names_ok_def\<close>)

lemma name_at_agree:
  assumes "\<And>x. x \<in> owned (fw st) \<Longrightarrow> mem st' x = mem st x"
    and "MOD_NAMES st' = MOD_NAMES st" and "MOD_NAMES_POS st' = MOD_NAMES_POS st"
    and "names_safe owned st" and na: "name_at st p bs"
  shows "name_at st' p bs"
proof -
  have safe: "names_ok st" "names_range st \<subseteq> owned (fw st)" using assms(4) by (auto simp: names_safe_def)
  obtain i where i: "p = MOD_NAMES st + of_nat i" "i + length bs < MOD_NAMES_POS st"
    using na by (auto simp: name_at_def)
  have "mem st' (p + of_nat j) = mem st (p + of_nat j)" if "j \<le> length bs" for j
  proof -
    have "i + j < 4096" using safe(1) i(2) that by (simp add: names_ok_def NAMES_CAP_def)
    then have "MOD_NAMES st + of_nat (i + j) \<in> names_range st"
      by (simp add: names_range_def in_range_def unat_of_nat NAMES_CAP_def del: of_nat_add)
    with safe(2) assms(1) i(1) show ?thesis by (auto simp: add.assoc)
  qed
  with na assms(2,3) show ?thesis unfolding name_at_def by (auto intro: c_string_cong [of "mem st"])
qed

lemma mods_loaded_agree:
  assumes "\<And>x. x \<in> owned (fw st) \<Longrightarrow> mem st' x = mem st x"
    and "MOD_NAMES st' = MOD_NAMES st" and "MOD_NAMES_POS st' = MOD_NAMES_POS st"
    and "owned (fw st) \<subseteq> owned (fw st')" and "mods_loaded F owned mods st"
  shows "mods_loaded F owned mods st'"
proof -
  have n: "names_range st' = names_range st" using assms(2) by (simp add: names_range_def)
  have safe: "names_ok st" "names_range st \<subseteq> owned (fw st)"
    using assms(5) by (auto simp: mods_loaded_def names_safe_def)
  have "names_ok st'" by (rule names_ok_cong [OF assms(2,3) _ safe(1)]) (use assms(1) safe(2) in blast)
  with safe(2) assms(4) n have s: "names_safe owned st'" by (auto simp: names_safe_def)
  have name: "name_at st' p bs" if "name_at st p bs" for p bs
    using name_at_agree [OF assms(1-3) _ that] assms(5) by (simp add: mods_loaded_def)
  have "module_holds owned st' mi (fname, data)" if h: "module_holds owned st mi (fname, data)" for mi fname data
  proof -
    have "phys_start mi + of_nat i \<in> owned (fw st)" if "i < unat (module_pages mi) * 4096" for i
      using that h by (auto simp: module_holds_def page_range_def in_range_def unat_offset subset_iff)
    moreover have "\<exists>pos. name_at st' (name_ptr mi) (stored_name pos fname)"
      using h name by (auto simp: module_holds_def)
    ultimately show ?thesis using h assms(1,4) n unfolding module_holds_def by auto
  qed
  then have "module_holds owned st' mi mf" if "module_holds owned st mi mf" for mi mf
    using that by (cases mf) simp
  then have "modules_held F owned st' mods"
    using assms(5) unfolding mods_loaded_def modules_held_def by (blast intro: list_all2_mono)
  then show ?thesis using s by (simp add: mods_loaded_def)
qed

lemma loaded_agree:
  assumes "\<And>x. x \<in> owned (fw st) \<Longrightarrow> mem st' x = mem st x"
    and "MOD_NAMES st' = MOD_NAMES st" and "MOD_NAMES_POS st' = MOD_NAMES_POS st"
    and "owned (fw st) \<subseteq> owned (fw st')" and "loaded F owned img mods st"
  shows "loaded F owned img mods st'"
proof -
  have "names_range st' = names_range st" using assms(2) by (simp add: names_range_def)
  then have "seg_loaded (mem st') img s \<and> seg_range s \<subseteq> owned (fw st') - names_range st'"
    if "s \<in> set (elf_segments img)" for s
    using that assms(1,4,5) seg_loaded_same [of "mem st" img s "mem st'"] by (auto simp: loaded_def subset_iff)
  moreover have "mods_loaded F owned mods st'"
    by (rule mods_loaded_agree [OF assms(1-4)]) (use assms(5) in \<open>simp_all add: loaded_def\<close>)
  ultimately show ?thesis by (simp add: loaded_def)
qed

lemma loaded_keeps:
  assumes "keeps owned st st'" and "names_safe owned st'" and "loaded F owned img mods st"
    and "modules_held F owned st' mods'"
  shows "loaded F owned img mods' st'"
proof -
  have "seg_loaded (mem st') img s \<and> seg_range s \<subseteq> owned (fw st') - names_range st'"
    if "s \<in> set (elf_segments img)" for s
    using that assms(1,3) seg_loaded_same [of "mem st" img s "mem st'"]
    unfolding loaded_def keeps_def names_range_def by auto
  with assms(2,4) show ?thesis by (simp add: loaded_def mods_loaded_def)
qed

text \<open>The kernel: its segments lie where nothing was handed out before.\<close>

lemma load_kernel_loaded:
  assumes contract: "boot_contract F owned" and fresh: "fresh_start owned st"
    and img: "fst (read_kernel F kp (fw st)) = Inr img"
    and segs: "segs_disjoint (elf_segments img)" "list_all seg_below_top (elf_segments img)"
    and run: "load_kernel F kp st = Some (Inr ki, st')"
  shows "loaded F owned img [] st'" and "ki = elf_info img"
proof -
  obtain f where rk: "read_kernel F kp (fw st) = (Inr img, f)" using img by (metis prod.collapse)
  have len: "length img < 2 ^ 64" by (rule read_kernel_length [OF img])
  have f: "owned f = owned (fw st)" by (rule read_kernel_owned [OF boot_contractD(4) [OF contract] rk])
  let ?st = "st\<lparr>fw := f\<rparr>"
  have "load_image_buf F img ?st = Some (Inr ki, st')" using run rk by (simp add: load_kernel_def)
  note ok = load_image_ok [OF len this]
  show "ki = elf_info img" by (rule ok(2))
  have safe: "names_ok st" "names_range st \<subseteq> owned f" using fresh f by (auto simp: fresh_start_def names_safe_def)
  have "table_ok (\<lambda>g. owned g - owned f) ?st"
    using fresh by (simp add: table_ok_def fresh_start_def claims_def)
  from load_segments_fresh [OF boot_contractD(2) [OF contract] len ok(3) this] segs(2)
  have r: "owned f \<subseteq> owned (fw st')" "\<forall>x \<in> owned f. mem st' x = mem st x"
      "\<forall>s \<in> set (elf_segments img). seg_range s \<subseteq> owned (fw st') - owned f"
    by (auto simp: list_all_iff)
  have names: "MOD_NAMES st' = MOD_NAMES st" "MOD_NAMES_POS st' = MOD_NAMES_POS st"
    using load_segments_statics [OF ok(3)] by simp_all
  then have same: "names_range st' = names_range st" by (simp add: names_range_def)
  have "names_ok st'" by (rule names_ok_cong [OF names _ safe(1)]) (use r(2) safe(2) in blast)
  with r safe(2) same have "names_safe owned st'" by (auto simp: names_safe_def)
  moreover have "seg_range s \<subseteq> owned (fw st') - names_range st'" if "s \<in> set (elf_segments img)" for s
    using r(3) that safe(2) same by blast
  ultimately show "loaded F owned img [] st'"
    using load_segments_loaded [OF len ok(3) segs(1)] by (simp add: loaded_def mods_loaded_def modules_held_Nil)
qed

lemma boot_modules_loaded:
  assumes "modules_contract F owned" and "loaded F owned img [] st"
    and "boot_modules F mp st = Some (Inr mods, st')"
  shows "loaded F owned img mods st'"
proof (cases mp)
  case (Some dir)
  with assms(3) have "load_modules F dir st = Some (Inr mods, st')" by (simp add: boot_modules_def)
  from load_modules_rule [OF assms(1) _ this] assms(2)
  have "loop_ok F owned st (Inr mods, st')" by (simp add: loaded_def mods_loaded_def)
  then show ?thesis using loaded_keeps [OF _ _ assms(2)] by (simp add: loop_ok_def)
qed (use assms(2,3) in \<open>simp add: boot_modules_def\<close>)

lemma display_info_keeps:
  assumes "boot_contract F owned" and "display_info F v st = (fb, r, st')"
  shows "mem st' = mem st" and "MOD_NAMES st' = MOD_NAMES st" and "MOD_NAMES_POS st' = MOD_NAMES_POS st"
    and "owned (fw st) \<subseteq> owned (fw st')" and "rsdp_ok r" and "v \<noteq> 2 \<Longrightarrow> fb = None \<and> r = None"
proof -
  show "mem st' = mem st" "MOD_NAMES st' = MOD_NAMES st" "MOD_NAMES_POS st' = MOD_NAMES_POS st"
    "owned (fw st) \<subseteq> owned (fw st')"
    using assms(2) by (auto simp: display_info_def Let_def dest!: boot_contractD(6) [OF assms(1)] split: if_splits prod.splits)
  have "rsdp_ok (find_rsdp F s)" for s :: "'a mach"
    by (auto simp: rsdp_ok_def find_rsdp_def Let_def rsdp_length_def RSDP_V1_def RSDP_V2_def splice_def
        split: option.splits if_splits)
  then show "rsdp_ok r" using assms(2)
    by (auto simp: display_info_def Let_def rsdp_ok_def split: if_splits prod.splits)
  show "v \<noteq> 2 \<Longrightarrow> fb = None \<and> r = None" using assms(2) by (simp add: display_info_def)
qed

section \<open>The information handed to the kernel\<close>

text \<open>
  The reserved memory was free until now, so writing it leaves the segments, the modules and their
  names as they are.
\<close>

definition info_free :: "('f \<Rightarrow> u64 set) \<Rightarrow> 'f mach \<Rightarrow> u64 \<Rightarrow> bool" where
  "info_free owned st a \<longleftrightarrow> owned (fw st) \<inter> page_range a INFO_PAGES = {}"

lemma info_range: "in_range a INFO_SIZE x \<longleftrightarrow> x \<in> page_range a INFO_PAGES"
  by (simp add: page_range_def INFO_PAGES_def INFO_SIZE_def)

lemma loaded_info_written:
  assumes "loaded F owned img mods st" and "info_free owned st (INFO_AT st')"
    and "same_outside (INFO_AT st') INFO_SIZE (mem st) (mem st')" and "owned (fw st) \<subseteq> owned (fw st')"
    and "MOD_NAMES st' = MOD_NAMES st" and "MOD_NAMES_POS st' = MOD_NAMES_POS st"
  shows "loaded F owned img mods st'"
proof (rule loaded_agree [OF _ assms(5,6,4,1)])
  show "mem st' x = mem st x" if "x \<in> owned (fw st)" for x
    using assms(2,3) that by (auto simp: info_free_def same_outside_def info_range)
qed

text \<open>The names of the modules, where the modules say they are.\<close>

lemma mods_named:
  assumes "mods_loaded F owned mods st" and "info_free owned st a"
  obtains names where "list_all2 (named a (mem st)) mods names"
    and "list_all2 (\<lambda>mi. name_at st (name_ptr mi)) mods names"
proof -
  obtain files where h: "list_all2 (module_holds owned st) mods files"
    using assms(1) unfolding mods_loaded_def modules_held_def by blast
  have safe: "names_ok st" "names_range st \<subseteq> owned (fw st)" using assms(1) by (auto simp: mods_loaded_def names_safe_def)
  have named: "named a (mem st) mi name" if n: "name_at st (name_ptr mi) name" for mi name
  proof -
    obtain i where i: "name_ptr mi = MOD_NAMES st + of_nat i" "i + length name < MOD_NAMES_POS st"
      and c: "c_string (mem st) (name_ptr mi) name"
      using n by (auto simp: name_at_def)
    have "\<not> in_range a INFO_SIZE (name_ptr mi + of_nat j)" if "j < length name + 1" for j
    proof -
      have "i + j < 4096" using safe(1) i(2) that by (simp add: names_ok_def NAMES_CAP_def)
      then have "MOD_NAMES st + of_nat (i + j) \<in> names_range st"
        by (simp add: names_range_def in_range_def unat_of_nat NAMES_CAP_def del: of_nat_add)
      with safe(2) assms(2) i(1) show ?thesis by (auto simp: info_free_def info_range add.assoc)
    qed
    with c show ?thesis by (simp add: named_def away_def)
  qed
  from h have "\<exists>names. list_all2 (\<lambda>mi. name_at st (name_ptr mi)) mods names"
  proof (induction rule: list_all2_induct)
    case (Cons mi mods mf files)
    from Cons.hyps(1) obtain name where "name_at st (name_ptr mi) name"
      by (auto simp: module_holds_def split: prod.splits)
    with Cons.IH show ?case by (auto simp: list_all2_Cons1)
  qed simp
  then obtain names where n: "list_all2 (\<lambda>mi. name_at st (name_ptr mi)) mods names" by blast
  then have "list_all2 (named a (mem st)) mods names" by (rule list_all2_mono) (rule named)
  then show ?thesis using n by (rule that)
qed

text \<open>What the information area then says, in the version of the protocol the kernel asked for.\<close>

definition told :: "u32 \<Rightarrow> u64 \<Rightarrow> memory \<Rightarrow> mem_desc list \<Rightarrow> fb_info option \<Rightarrow> module_info list \<Rightarrow> bytes list \<Rightarrow>
    rsdp option \<Rightarrow> bool" where
  "told version a m ds fb mods names r \<longleftrightarrow>
     (if version = 1 then
        part a m 0 52 = mbi_bytes (mb1_header a ds (min (length mods) 32)) \<and>
        (\<forall>i < min (length mods) 32. module_written a m i (mods ! i) (names ! i)) \<and>
        (\<forall>i < min (length ds) 573. part a m (2624 + 24 * i) 24 = mmap_bytes (mmap_entry1 (ds ! i)))
      else
        (let img = mb2_image (mb2_tags ds fb (zip mods names) r) in
         mem_read m a INFO_SIZE = img @ replicate (INFO_SIZE - length img) 0))"

lemma enter_kernel_told:
  assumes "list_all2 (named (INFO_AT st) (mem st)) mods names" and "rsdp_ok r"
    and "boot_mode ki = Protected32" and "enter_kernel ki ds fb mods r st = Some (e, st')"
  shows "e = InKernel32 (ucast (entry_point ki)) (ucast (INFO_AT st))
      (if mb_version ki = 1 then MB1_BOOT_MAGIC else MB2_BOOT_MAGIC) \<and>
    told (mb_version ki) (INFO_AT st) (mem st') ds fb mods names r \<and>
    (\<exists>m. st' = st\<lparr>mem := m\<rparr> \<and> same_outside (INFO_AT st) INFO_SIZE (mem st) m)"
proof (cases "mb_version ki = 1")
  case True
  obtain p s where b: "build_mb1_info ds mods st = (p, s)" by force
  note parts = build_mb1_info_parts [OF assms(1) b]
  have "e = InKernel32 (ucast (entry_point ki)) p MB1_BOOT_MAGIC" "s = st'"
    using assms(3,4) b True by (simp_all add: enter_kernel_def)
  moreover obtain m where "s = st\<lparr>mem := m\<rparr>"
    using b by (auto simp: build_mb1_info_def Let_def split: prod.splits)
  ultimately show ?thesis using parts True by (auto simp: told_def)
next
  case False
  with assms(3,4) obtain p s where b: "build_mb2_info ds fb mods r st = Some (p, s)"
    and e: "e = InKernel32 (ucast (entry_point ki)) p MB2_BOOT_MAGIC" "s = st'"
    by (auto simp: enter_kernel_def split: option.splits)
  note k = build_mb2_info_bytes [OF assms(1,2) b]
  moreover obtain m where "s = st\<lparr>mem := m\<rparr>"
    using b by (auto simp: build_mb2_info_def Let_def split: prod.splits option.splits)
  ultimately show ?thesis using e False by (auto simp: told_def Let_def info_bytes_def)
qed

section \<open>From the firmware to the kernel\<close>

text \<open>The states a Multiboot boot goes through, when it gets to the kernel.\<close>

lemma boot_multiboot_stages:
  assumes "boot_multiboot F kp mp st = Some (e, st')" and "(\<exists>x y z. e = InKernel32 x y z) \<or> (\<exists>x y. e = InKernel64 x y)"
  obtains ki st1 mods st2 fb r st3 st4 ds f
  where "load_kernel F kp st = Some (Inr ki, st1)" and "boot_modules F mp st1 = Some (Inr mods, st2)"
    and "display_info F (mb_version ki) st2 = (fb, r, st3)" and "reserve F st3 = (True, st4)"
    and "exit_boot_services F LOADER_DATA (fw st4) = (ds, f)"
    and "enter_kernel ki ds fb mods r (st4\<lparr>fw := f\<rparr>) = Some (e, st')"
  using assms unfolding boot_multiboot_def
  by (auto split: option.splits prod.splits sum.splits bool.splits)

text \<open>The state the kernel is entered from: everything is loaded and the information has its place.\<close>

lemma boot_multiboot_ready:
  assumes contract: "boot_contract F owned" and fresh: "fresh_start owned st"
    and img: "fst (read_kernel F kp (fw st)) = Inr img"
    and segs: "segs_disjoint (elf_segments img)" "list_all seg_below_top (elf_segments img)"
    and run: "load_kernel F kp st = Some (Inr ki, st1)" "boot_modules F mp st1 = Some (Inr mods, st2)"
      "display_info F v st2 = (fb, r, st3)" "reserve F st3 = (True, st4)"
      "exit_boot_services F LOADER_DATA (fw st4) = (ds, f)"
  shows "ki = elf_info img" and "rsdp_ok r" and "v \<noteq> 2 \<Longrightarrow> fb = None \<and> r = None"
    and "loaded F owned img mods st3" and "info_free owned st3 (INFO_AT st4)"
    and "unat (INFO_AT st4) + INFO_SIZE \<le> 2 ^ 32" and "owned (fw st3) \<subseteq> owned f"
    and "mem st4 = mem st3" and "MOD_NAMES st4 = MOD_NAMES st3" and "MOD_NAMES_POS st4 = MOD_NAMES_POS st3"
    and "page_range (INFO_AT st4) INFO_PAGES \<subseteq> owned f"
proof -
  note k = load_kernel_loaded [OF contract fresh img segs run(1)]
  show "ki = elf_info img" by (rule k(2))
  have l2: "loaded F owned img mods st2"
    by (rule boot_modules_loaded [OF boot_contractD(1) [OF contract] k(1) run(2)])
  note di = display_info_keeps [OF contract run(3)]
  show "rsdp_ok r" "v \<noteq> 2 \<Longrightarrow> fb = None \<and> r = None" by (fact di)+
  show "loaded F owned img mods st3"
    by (rule loaded_agree [OF _ _ _ _ l2]) (simp_all add: di)
  note res = reserve_result [OF boot_contractD(2,3) [OF contract] run(4)]
  show "info_free owned st3 (INFO_AT st4)" "unat (INFO_AT st4) + INFO_SIZE \<le> 2 ^ 32" "mem st4 = mem st3"
    using res by (auto simp: info_free_def)
  obtain p g where a: "allocate_pages F (MaxAddress 0xFFFFFFFF) LOADER_DATA INFO_PAGES (fw st3) = (Some p, g)"
    and st4: "st4 = st3\<lparr>fw := g, INFO_AT := p\<rparr>"
    using run(4) by (auto simp: reserve_def split: prod.splits option.splits)
  then show "MOD_NAMES st4 = MOD_NAMES st3" "MOD_NAMES_POS st4 = MOD_NAMES_POS st3" by simp_all
  have "owned (fw st3) \<subseteq> owned g" by (rule alloc_contract_owned [OF boot_contractD(2) [OF contract] a])
  with boot_contractD(5) [OF contract run(5)] st4 show "owned (fw st3) \<subseteq> owned f" by auto
  show "page_range (INFO_AT st4) INFO_PAGES \<subseteq> owned f"
    using res(1) boot_contractD(5) [OF contract run(5)] by auto
qed

text \<open>The kernel at the end of a boot, and all that it is entered with.\<close>

lemma boot_multiboot_delivers:
  assumes "boot_contract F owned" and "fresh_start owned st"
    and "fst (read_kernel F kp (fw st)) = Inr img"
    and "segs_disjoint (elf_segments img)" and "list_all seg_below_top (elf_segments img)"
    and "boot_multiboot F kp mp st = Some (InKernel32 entry addr magic, st')"
  obtains mods names ds fb r f
  where "entry = ucast (entry_point (elf_info img))"
    and "magic = (if detect_multiboot_version img = 1 then MB1_BOOT_MAGIC else MB2_BOOT_MAGIC)"
    and "addr = ucast (INFO_AT st')" and "unat (INFO_AT st') + INFO_SIZE \<le> 2 ^ 32"
    and "page_range (INFO_AT st') INFO_PAGES \<subseteq> owned (fw st')"
    and "loaded F owned img mods st'" and "list_all2 (named (INFO_AT st') (mem st')) mods names"
    and "list_all2 (\<lambda>mi. name_at st' (name_ptr mi)) mods names"
    and "told (detect_multiboot_version img) (INFO_AT st') (mem st') ds fb mods names r"
    and "detect_multiboot_version img \<noteq> 2 \<longrightarrow> fb = None \<and> r = None"
    and "exit_boot_services F LOADER_DATA f = (ds, fw st')"
proof -
  obtain ki st1 mods st2 fb r st3 st4 ds f where
    run: "load_kernel F kp st = Some (Inr ki, st1)" "boot_modules F mp st1 = Some (Inr mods, st2)"
      "display_info F (mb_version ki) st2 = (fb, r, st3)" "reserve F st3 = (True, st4)"
      "exit_boot_services F LOADER_DATA (fw st4) = (ds, f)"
    and enter: "enter_kernel ki ds fb mods r (st4\<lparr>fw := f\<rparr>) = Some (InKernel32 entry addr magic, st')"
    by (rule boot_multiboot_stages [OF assms(6)]) auto
  note ready = boot_multiboot_ready [OF assms(1-5) run]
  let ?st = "st4\<lparr>fw := f\<rparr>"
  have ki: "mb_version ki = detect_multiboot_version img" by (simp add: ready(1) elf_info_def Let_def)
  have mode: "boot_mode ki = Protected32"
    using enter by (auto simp: enter_kernel_def split: boot_mode.splits if_splits option.splits prod.splits)
  obtain names where names: "list_all2 (named (INFO_AT st4) (mem st3)) mods names"
    and at3: "list_all2 (\<lambda>mi. name_at st3 (name_ptr mi)) mods names"
    by (rule mods_named [OF conjunct1 [OF ready(4) [unfolded loaded_def]] ready(5)])
  have e: "InKernel32 entry addr magic = InKernel32 (ucast (entry_point ki)) (ucast (INFO_AT st4))
      (if mb_version ki = 1 then MB1_BOOT_MAGIC else MB2_BOOT_MAGIC)"
    "told (mb_version ki) (INFO_AT st4) (mem st') ds fb mods names r"
    "\<exists>m. st' = ?st\<lparr>mem := m\<rparr> \<and> same_outside (INFO_AT st4) INFO_SIZE (mem st4) m"
    using enter_kernel_told [OF _ ready(2) mode enter, of names] names ready(8) by simp_all
  then obtain m where st': "st' = ?st\<lparr>mem := m\<rparr>" and m: "same_outside (INFO_AT st4) INFO_SIZE (mem st3) m"
    using ready(8) by auto
  have "loaded F owned img mods st'"
    by (rule loaded_info_written [OF ready(4)]) (use ready(5,7,9,10) m st' in auto)
  moreover have "list_all2 (named (INFO_AT st') (mem st')) mods names"
    using names named_same [OF m] by (auto simp: st' elim!: list_all2_mono)
  moreover have "mem st' x = mem st3 x" if "x \<in> owned (fw st3)" for x
    using m ready(5) that by (auto simp: st' info_free_def same_outside_def info_range)
  then have "name_at st' p bs" if "name_at st3 p bs" for p bs
    using name_at_agree [of owned st3 st' p bs] that ready(4,9,10) by (simp add: st' loaded_def mods_loaded_def)
  then have "list_all2 (\<lambda>mi. name_at st' (name_ptr mi)) mods names"
    using at3 by (auto elim: list_all2_mono)
  moreover have "detect_multiboot_version img \<noteq> 2 \<longrightarrow> fb = None \<and> r = None" using ready(3) ki by auto
  ultimately show ?thesis
    by (intro that [of mods names ds fb r "fw st4"])
      (use e(1,2) ready(1,6,11) run(5) ki in \<open>simp_all add: st'\<close>)
qed



section \<open>Examples\<close>

text \<open>
  A volume whose files are all one 32-bit executable with a Multiboot header, and whose directories
  all hold it once more, as a module.
\<close>

definition demo_elf32 :: bytes where
  "demo_elf32 = [0x7F, 0x45, 0x4C, 0x46, 1, 1, 1, 0, 0, 0, 0, 0, 0, 0, 0, 0,
     2, 0, 3, 0, 1, 0, 0, 0, 12, 0, 0x20, 0, 52, 0, 0, 0, 0, 0, 0, 0, 0, 0, 0, 0,
     52, 0, 32, 0, 1, 0, 0, 0, 0, 0, 0, 0,
     1, 0, 0, 0, 84, 0, 0, 0, 0, 0, 0x20, 0, 0, 0, 0x20, 0, 12, 0, 0, 0, 16, 0, 0, 0, 5, 0, 0, 0, 0, 0, 0, 0,
     0x02, 0xB0, 0xAD, 0x1B, 0, 0, 0, 0, 0xFE, 0x4F, 0x52, 0xE4]"

lemma demo_elf32_length: "length demo_elf32 = 96"
  by (simp add: demo_elf32_def)

lemma demo_elf32_segments:
  "elf_segments demo_elf32 = [\<lparr>seg_paddr = 0x200000, seg_memsz = 16, seg_offset = 84, seg_filesz = 12\<rparr>]"
  by (simp add: demo_elf32_def elf_segments_def elf_consts elf_sizes phdr_indices_def field16_def
      field32_def field64_def slice_def phdr_offset_def load_entry32_def read_phdr32_def Let_def)

lemma demo_elf32_accepted: "image_error demo_elf32 = None"
  by (simp add: demo_elf32_def image_error_def elf_magic_def elf_consts elf_sizes field16_def slice_def)

lemma demo_elf32_header: "detect_multiboot_version demo_elf32 = 1"
  by (simp add: detect_multiboot_version_def demo_elf32_def mb2_scan.simps mb1_scan.simps
      mb2_header_at_def mb1_header_at_def field32_def slice_def elf_consts Let_def)

lemma demo_elf32_info:
  "elf_info demo_elf32 = \<lparr>entry_point = 0x20000C, mb_version = 1, boot_mode = Protected32\<rparr>"
  by (simp add: elf_info_def demo_elf32_header Let_def)
    (simp add: demo_elf32_def elf_consts field32_def slice_def)

definition demo_boot :: "grants firmware" where
  "demo_boot = (demo_fw_file demo_elf32)\<lparr>
     into_type := (\<lambda>h f. (Some (Dir h), f)),
     read_entry := (\<lambda>_ _ f. if (0xFFFFF000, 0) \<in> set f then (EntryOk None, f)
       else (EntryOk (Some \<lparr>is_directory = False, file_name = [0x61], file_size = 96\<rparr>),
             (0xFFFFF000, 0) # f))\<rparr>"

lemma demo_boot_contract: "boot_contract demo_boot granted"
proof -
  have "page_range x 0 = {}" for x by (simp add: page_range_def in_range_def)
  then have "files_contract demo_boot granted"
    by (simp add: files_contract_def demo_boot_def demo_fw_file_def demo_fw_def granted_def)
  moreover have "read_contract demo_boot"
    by (simp add: read_contract_def demo_boot_def demo_fw_file_def)
  ultimately have "modules_contract demo_boot granted"
    using demo_file_contracts [of demo_elf32]
    by (simp add: modules_contract_def alloc_contract_def max_address_contract_def demo_boot_def)
  then show ?thesis by (simp add: boot_contract_def demo_boot_def demo_fw_file_def demo_fw_def)
qed

lemma demo_names_zero: "demo_names\<lparr>mem := \<lambda>_. 0\<rparr> = demo_names"
  by (simp add: demo_names_def demo_mach_def)

lemma demo_fresh: "fresh_start granted (demo_names\<lparr>mem := m0\<rparr>)"
  using demo_names_safe
  by (simp add: fresh_start_def names_safe_def names_ok_def names_range_def demo_names_def demo_mach_def)

lemma demo_boot_reads: "read_kernel demo_boot kp f = (Inr demo_elf32, f)"
  by (simp add: read_kernel_def demo_boot_def demo_fw_file_def demo_fw_def demo_elf32_length)

lemma demo_boot_loads:
  "\<exists>m t. load_kernel demo_boot kp (demo_names\<lparr>mem := m0\<rparr>) =
    Some (Inr (elf_info demo_elf32), demo_names\<lparr>fw := [(0x200000, 1), (0x7F000000, 1)], mem := m, ALLOC_PAGES := t, ALLOC_COUNT := 1\<rparr>)"
proof -
  have len: "length demo_elf32 < 2 ^ 64" by (simp add: demo_elf32_length)
  show ?thesis
    unfolding load_kernel_def demo_boot_reads prod.case sum.case load_image_buf_eq [OF len]
    by (simp add: demo_elf32_accepted demo_elf32_segments demo_elf32_length load_seg_def load_segment_eval
        demo_boot_def demo_fw_file_def demo_names_def)
qed

lemma demo_boot_modules:
  assumes "fw st = [(0x200000, 1), (0x7F000000, 1)]" and "MOD_NAMES st = 0x7F000000" and "MOD_NAMES_POS st = 0"
  shows "\<exists>mods st'. load_modules demo_boot dir st = Some (Inr mods, st') \<and> length mods = 1 \<and>
    fw st' = [(0x1FF000, 1), (0xFFFFF000, 0), (0x200000, 1), (0x7F000000, 1)]"
  using assms
  by (simp add: load_modules_def load_modules_loop.simps load_module_def open_file_in_dir_def store_name_eq
      demo_boot_def demo_fw_file_def demo_fw_def demo_elf32_length grant_at_def meets_def in_range_def Let_def NAMES_CAP_def)

lemma demo_boot_enters:
  "\<exists>addr st'. boot_multiboot demo_boot kp (Some dir) (demo_names\<lparr>mem := m0\<rparr>) =
    Some (InKernel32 0x20000C addr MB1_BOOT_MAGIC, st') \<and>
    fw st' = [(0x1FB000, 4), (0x1FF000, 1), (0xFFFFF000, 0), (0x200000, 1), (0x7F000000, 1)]"
proof -
  obtain m t where k: "load_kernel demo_boot kp (demo_names\<lparr>mem := m0\<rparr>) = Some (Inr (elf_info demo_elf32),
      demo_names\<lparr>fw := [(0x200000, 1), (0x7F000000, 1)], mem := m, ALLOC_PAGES := t, ALLOC_COUNT := 1\<rparr>)"
    using demo_boot_loads by blast
  let ?st = "demo_names\<lparr>fw := [(0x200000, 1), (0x7F000000, 1)], mem := m, ALLOC_PAGES := t, ALLOC_COUNT := 1\<rparr>"
  obtain mods st2 where mo: "load_modules demo_boot dir ?st = Some (Inr mods, st2)"
    and f: "fw st2 = [(0x1FF000, 1), (0xFFFFF000, 0), (0x200000, 1), (0x7F000000, 1)]"
    using demo_boot_modules [of ?st dir] by (auto simp: demo_names_def demo_mach_def)
  have "reserve demo_boot st2 = (True, st2\<lparr>fw := (0x1FB000, 4) # fw st2, INFO_AT := 0x1FB000\<rparr>)"
    by (simp add: reserve_def f demo_boot_def demo_fw_file_def demo_fw_def grant_at_def meets_def in_range_def INFO_PAGES_def Let_def)
  then obtain st4 where r: "reserve demo_boot st2 = (True, st4)" and f4: "fw st4 = (0x1FB000, 4) # fw st2" by simp
  have x: "exit_boot_services demo_boot LOADER_DATA (fw st4) = ([], fw st4)"
    by (simp add: demo_boot_def demo_fw_file_def demo_fw_def)
  have id: "st4\<lparr>fw := fw st4\<rparr> = st4" by simp
  obtain p s where b: "build_mb1_info [] mods st4 = (p, s)" by force
  then have "fw s = fw st4" by (auto simp: build_mb1_info_def Let_def split: prod.splits)
  moreover have "boot_multiboot demo_boot kp (Some dir) (demo_names\<lparr>mem := m0\<rparr>) =
      Some (InKernel32 0x20000C p MB1_BOOT_MAGIC, s)"
    using k mo r x b id
    by (simp add: boot_multiboot_def boot_modules_def display_info_def demo_elf32_info enter_kernel_def)
  ultimately show ?thesis using f f4 by simp
qed


text \<open>The 64-bit executable of the kernel loader's examples, with no modules.\<close>

lemma demo_long_contract: "boot_contract (demo_fw_file demo_elf64) granted"
proof -
  have "read_contract (demo_fw_file demo_elf64)" by (simp add: read_contract_def demo_fw_file_def)
  then have "modules_contract (demo_fw_file demo_elf64) granted"
    using demo_file_contracts [of demo_elf64] by (simp add: modules_contract_def)
  then show ?thesis by (simp add: boot_contract_def demo_fw_file_def demo_fw_def)
qed

lemma demo_long_reads: "read_kernel (demo_fw_file demo_elf64) kp f = (Inr demo_elf64, f)"
  by (simp add: read_kernel_def demo_fw_file_def demo_fw_def demo_elf64_def)

lemma demo_long_info:
  "elf_info demo_elf64 = \<lparr>entry_point = 0x200004, mb_version = 0, boot_mode = Long64\<rparr>"
  by (simp add: elf_info_def demo_elf64_no_header Let_def)
    (simp add: demo_elf64_def elf_consts field64_def slice_def)

lemma demo_long_enters:
  "\<exists>st'. boot_multiboot (demo_fw_file demo_elf64) kp None demo_names = Some (InKernel64 0x200004 0, st')"
proof -
  have "\<exists>m t. load_kernel (demo_fw_file demo_elf64) kp demo_names =
    Some (Inr (elf_info demo_elf64), demo_names\<lparr>fw := [(0x200000, 1), (0x7F000000, 1)], mem := m, ALLOC_PAGES := t, ALLOC_COUNT := 1\<rparr>)"
    unfolding load_kernel_def demo_long_reads prod.case sum.case load_image_buf_eq [OF demo_elf64_length]
    by (simp add: demo_elf64_accepted demo_elf64_segments load_seg_def load_segment_eval demo_fw_file_def demo_names_def)
      (simp add: demo_elf64_def)
  then obtain m t where k: "load_kernel (demo_fw_file demo_elf64) kp demo_names = Some (Inr (elf_info demo_elf64),
      demo_names\<lparr>fw := [(0x200000, 1), (0x7F000000, 1)], mem := m, ALLOC_PAGES := t, ALLOC_COUNT := 1\<rparr>)"
    by blast
  let ?st = "demo_names\<lparr>fw := [(0x200000, 1), (0x7F000000, 1)], mem := m, ALLOC_PAGES := t, ALLOC_COUNT := 1\<rparr>"
  have "\<exists>p f'. allocate_pages (demo_fw_file demo_elf64) (MaxAddress 0xFFFFFFFF) LOADER_DATA INFO_PAGES (fw ?st) = (Some p, f')"
    by (simp add: demo_fw_file_def demo_fw_def grant_at_def meets_def in_range_def INFO_PAGES_def Let_def)
  then obtain st3 where r: "reserve (demo_fw_file demo_elf64) ?st = (True, st3)"
    by (auto simp: reserve_def)
  show ?thesis
    using k r by (auto simp: boot_multiboot_def boot_modules_def display_info_def demo_long_info enter_kernel_def
        split: prod.splits)
qed


end
