(* ===== verification/Services.thy ===== *)
theory Services
  imports BootFlow
begin

text \<open>
  What \<open>main\<close> does to the memory that is handed out before it boots anything: reading the
  configuration, scanning the volumes, drawing and polling the menu and chainloading take no page
  back, under a contract on the services they call.
\<close>

section \<open>The services\<close>

text \<open>
  What the console, the other volumes and the images do to the memory that is handed out: they
  take nothing back. (An image that is started owns what it asks for.)
\<close>

definition keeps_pages :: "'f firmware \<Rightarrow> ('f \<Rightarrow> u64 set) \<Rightarrow> bool" where
  "keeps_pages F owned \<longleftrightarrow>
     (\<forall>f. owned f \<subseteq> owned (snd (read_key F f))) \<and> (\<forall>f. owned f \<subseteq> owned (snd (current_mode F f))) \<and>
     (\<forall>f. owned f \<subseteq> owned (snd (cursor_row F f))) \<and>
     (\<forall>c r f. owned f \<subseteq> owned (snd (set_cursor_position F c r f))) \<and>
     (\<forall>b f. owned f \<subseteq> owned (enable_cursor F b f)) \<and> (\<forall>s f. owned f \<subseteq> owned (print_str F s f)) \<and>
     (\<forall>n f. owned f \<subseteq> owned (stall_ms F n f)) \<and>
     (\<forall>f. owned f \<subseteq> owned (snd (locate_file_systems F f))) \<and>
     (\<forall>h f. owned f \<subseteq> owned (snd (open_file_system F h f))) \<and>
     (\<forall>f. owned f \<subseteq> owned (snd (open_loaded_image F f))) \<and>
     (\<forall>h f. owned f \<subseteq> owned (snd (open_device_path F h f))) \<and>
     (\<forall>p f. owned f \<subseteq> owned (snd (load_image F p f)))"

definition services_contract :: "'f firmware \<Rightarrow> ('f \<Rightarrow> u64 set) \<Rightarrow> bool" where
  "services_contract F owned \<longleftrightarrow> keeps_pages F owned \<and>
     (\<forall>h f r f'. start_image F h f = Some (r, f') \<longrightarrow> owned f \<subseteq> owned f')"

lemma grow_step: "r = (a, f1) \<Longrightarrow> owned f \<subseteq> owned (snd r) \<Longrightarrow> owned f \<subseteq> owned f1"
  by simp

lemma services_contractD:
  assumes "services_contract F owned"
  shows "read_key F f = (k, f1) \<Longrightarrow> owned f \<subseteq> owned f1"
    and "current_mode F f = (cm, f1) \<Longrightarrow> owned f \<subseteq> owned f1"
    and "cursor_row F f = (row, f1) \<Longrightarrow> owned f \<subseteq> owned f1"
    and "set_cursor_position F x y f = (ok, f1) \<Longrightarrow> owned f \<subseteq> owned f1"
    and "locate_file_systems F f = (hs, f1) \<Longrightarrow> owned f \<subseteq> owned f1"
    and "open_file_system F h f = (a, f1) \<Longrightarrow> owned f \<subseteq> owned f1"
    and "open_loaded_image F f = (li, f1) \<Longrightarrow> owned f \<subseteq> owned f1"
    and "open_device_path F h f = (dp, f1) \<Longrightarrow> owned f \<subseteq> owned f1"
    and "load_image F p f = (im, f1) \<Longrightarrow> owned f \<subseteq> owned f1"
    and "owned f \<subseteq> owned (enable_cursor F b f)" and "owned f \<subseteq> owned (print_str F s f)"
    and "owned f \<subseteq> owned (stall_ms F n f)"
proof -
  have k: "keeps_pages F owned" using assms by (simp add: services_contract_def)
  note k = k [unfolded keeps_pages_def]
  show "read_key F f = (k, f1) \<Longrightarrow> owned f \<subseteq> owned f1" "current_mode F f = (cm, f1) \<Longrightarrow> owned f \<subseteq> owned f1"
    "cursor_row F f = (row, f1) \<Longrightarrow> owned f \<subseteq> owned f1" "set_cursor_position F x y f = (ok, f1) \<Longrightarrow> owned f \<subseteq> owned f1"
    "locate_file_systems F f = (hs, f1) \<Longrightarrow> owned f \<subseteq> owned f1" "open_file_system F h f = (a, f1) \<Longrightarrow> owned f \<subseteq> owned f1"
    "open_loaded_image F f = (li, f1) \<Longrightarrow> owned f \<subseteq> owned f1" "open_device_path F h f = (dp, f1) \<Longrightarrow> owned f \<subseteq> owned f1"
    "load_image F p f = (im, f1) \<Longrightarrow> owned f \<subseteq> owned f1"
    by (erule grow_step, simp only: k)+
  show "owned f \<subseteq> owned (enable_cursor F b f)" "owned f \<subseteq> owned (print_str F s f)"
    "owned f \<subseteq> owned (stall_ms F n f)"
    by (simp_all only: k)
qed

lemma start_image_grows:
  "services_contract F owned \<Longrightarrow> start_image F h f = Some (r, f1) \<Longrightarrow> owned f \<subseteq> owned f1"
  unfolding services_contract_def by blast

text \<open>Drawing and choosing.\<close>

lemma line_grows: "services_contract F owned \<Longrightarrow> owned f \<subseteq> owned (line F l row s f)"
  unfolding line_def using services_contractD(4,11) by (metis prod.collapse subset_trans)

lemma println_grows: "services_contract F owned \<Longrightarrow> owned f \<subseteq> owned (println F s f)"
  by (simp add: println_def services_contractD)

lemma fold_grows: "(\<And>x f. owned f \<subseteq> owned (g x f)) \<Longrightarrow> owned f \<subseteq> owned (fold g xs f)"
proof (induction xs arbitrary: f)
  case (Cons x xs)
  from Cons.IH [OF Cons.prems, of "g x f"] Cons.prems [of f x] show ?case by (simp add: subset_trans)
qed simp

lemma screen_grows:
  assumes c: "services_contract F owned"
  shows "owned f \<subseteq> owned (show_entries F lo cf sel f)" and "owned f \<subseteq> owned (show_cancelled F lo f)"
    and "owned f \<subseteq> owned (show_countdown F lo cf sel left f)" and "owned f \<subseteq> owned (draw F l cf sel f)"
    and "owned f \<subseteq> owned (countdown F l cf sel left f)" and "owned f \<subseteq> owned (render_scrolling F cf sel f)"
proof -
  note l = line_grows [OF c] and p = println_grows [OF c]
  have e: "owned f \<subseteq> owned (draw_entries F l cf sel f)" for l f
    unfolding draw_entries_def by (rule fold_grows) (rule l)
  have ps: "owned f \<subseteq> owned (fold (\<lambda>i. println F (t i)) xs f)" for t :: "nat \<Rightarrow> ustr" and xs f
    by (rule fold_grows) (rule p)
  have r: "owned f \<subseteq> owned (render_scrolling F cf sel f)" for f
    unfolding render_scrolling_def Let_def
    by (intro subset_trans [OF _ p] subset_trans [OF _ ps] p)
  show "owned f \<subseteq> owned (show_entries F lo cf sel f)" using e r by (simp add: show_entries_def split: option.split)
  show "owned f \<subseteq> owned (show_cancelled F lo f)" using l p by (simp add: show_cancelled_def split: option.split)
  show cd: "owned f \<subseteq> owned (countdown F l cf sel left f)" for l using l by (simp add: countdown_def)
  show "owned f \<subseteq> owned (show_countdown F lo cf sel left f)" using cd p by (simp add: show_countdown_def split: option.split)
  show "owned f \<subseteq> owned (draw F l cf sel f)"
    unfolding draw_def Let_def by (intro subset_trans [OF _ l] subset_trans [OF _ e] l)
  show "owned f \<subseteq> owned (render_scrolling F cf sel f)" by (rule r)
qed

lemma key_effect_grows:
  assumes "services_contract F owned" and "key_effect F lo cf k sel f = (r, f')"
  shows "owned f \<subseteq> owned f'"
  using assms(2)
  by (auto simp: key_effect_def Let_def split: key.splits scan_code.splits option.splits if_splits
      intro: subsetD [OF screen_grows(1) [OF assms(1)]])

lemma tick_effect_grows:
  assumes "services_contract F owned" and "tick_effect F lo cf m f = (r, f')"
  shows "owned f \<subseteq> owned f'"
  using assms(2)
  by (auto simp: tick_effect_def Let_def split: if_splits intro: subsetD [OF screen_grows(3) [OF assms(1)]])

lemma choose_loop_grows:
  assumes c: "services_contract F owned" and run: "choose_loop F lo cf m f = Some r"
  shows "owned f \<subseteq> owned (snd r)"
proof -
  have "services_contract F owned \<longrightarrow> owned f \<subseteq> owned (snd r)"
    using run
  proof (induction rule: choose_loop.raw_induct [rotated, consumes 1, case_names step])
    case (step loop F lo cf m f r)
    show ?case
    proof
      assume c: "services_contract F owned"
      obtain ko f1 where ko: "read_key F f = (ko, f1)" by force
      have f1: "owned f \<subseteq> owned f1" by (rule services_contractD(1) [OF c ko])
      have again: "owned f2 \<subseteq> owned (snd r)" if "loop F lo cf m' (stall_ms F 100 f2) = Some r" for m' f2
        using step(1) [OF that] c services_contractD(12) [OF c, of f2 100] by auto
      have tick: "owned f2 \<subseteq> owned (snd r)"
        if "(case tick_effect F lo cf m' f2 of (Inl i, f) \<Rightarrow> Some (i, f)
             | (Inr m, f) \<Rightarrow> loop F lo cf m (stall_ms F 100 f)) = Some r" for m' f2
        using that again tick_effect_grows [OF c, of lo cf m' f2]
        by (fastforce split: prod.splits sum.splits)
      show "owned f \<subseteq> owned (snd r)"
      proof (cases ko)
        case None
        with step(2) ko tick [of m f1] f1 show ?thesis by auto
      next
        case (Some k)
        define g where "g = (if counting m then show_cancelled F lo f1 else f1)"
        have g: "owned f1 \<subseteq> owned g" using screen_grows(2) [OF c, of f1 lo] by (simp add: g_def)
        obtain t f2 where k: "key_effect F lo cf k (selected m) g = (t, f2)" by force
        have f2: "owned f \<subseteq> owned f2" using key_effect_grows [OF c k] g f1 by blast
        show ?thesis
        proof (cases t)
          case (Inl i)
          with step(2) ko Some k f2 show ?thesis by (auto simp: Let_def g_def [symmetric])
        next
          case (Inr sel)
          with step(2) ko Some k tick [of _ f2] f2 show ?thesis by (auto simp: Let_def g_def [symmetric])
        qed
      qed
    qed
  qed
  with c show ?thesis by blast
qed

lemma plan_grows:
  assumes "services_contract F owned" and "plan F n f = (lo, f')"
  shows "owned f \<subseteq> owned f'"
  using assms(2)
  by (auto simp: plan_def Let_def split: prod.splits option.splits if_splits bool.splits
      dest!: services_contractD(2-4) [OF assms(1)])

lemma choose_entry_grows:
  assumes c: "services_contract F owned" and run: "choose_entry F cf f = Some (i, f')"
  shows "owned f \<subseteq> owned f'"
proof (cases "length (entries cf) \<le> 1 \<or> timeout cf = 0")
  case False
  obtain lo f1 where p: "plan F (length (entries cf)) f = (lo, f1)" by force
  define f2 where "f2 = (case lo of
      Some l \<Rightarrow> countdown F l cf (default_entry cf) (timeout cf) (draw F l cf (default_entry cf) (enable_cursor F False f1))
    | None \<Rightarrow> render_scrolling F cf (default_entry cf) f1)"
  have f2: "owned f1 \<subseteq> owned f2"
    unfolding f2_def using services_contractD(10) [OF c] screen_grows(4-6) [OF c]
    by (cases lo) (auto, meson subsetD)
  obtain j f3 where l: "choose_loop F lo cf (start_menu cf) f2 = Some (j, f3)"
    and f': "f' = (case lo of Some l \<Rightarrow> snd (set_cursor_position F 0 (status_row l + 1) (enable_cursor F True f3)) | None \<Rightarrow> f3)"
    using run False p by (cases lo) (auto simp: choose_entry_def Let_def f2_def split: option.splits)
  have "owned f3 \<subseteq> owned f'"
    unfolding f' using services_contractD(4) [OF c prod.collapse [symmetric]] services_contractD(10) [OF c]
    by (cases lo) (auto, meson subsetD)
  with plan_grows [OF c p] f2 choose_loop_grows [OF c l] show ?thesis by auto
qed (use run in \<open>auto simp: choose_entry_def\<close>)

text \<open>Reading the configuration and scanning the volumes.\<close>

lemma load_grows:
  assumes "files_contract F owned" and "load F f = (r, f')"
  shows "owned f' = owned f"
  using assms(2)
  by (auto simp: load_def split: prod.splits option.splits if_splits dest!: files_contractD [OF assms(1)])

lemma file_exists_grows:
  assumes "files_contract F owned" and "file_exists F root p f = (r, f')"
  shows "owned f' = owned f"
  using assms(2)
  by (auto simp: file_exists_def split: prod.splits option.splits file_type.splits dest!: files_contractD [OF assms(1)])

lemma try_loaders_grows:
  assumes "files_contract F owned"
  shows "try_loaders F up device root own vendor ls out f = (r, f') \<Longrightarrow> owned f' = owned f"
proof (induction ls arbitrary: f)
  case (Cons l ls)
  then show ?case
    by (auto simp: Let_def split: prod.splits bool.splits if_splits dest!: file_exists_grows [OF assms])
qed simp

lemma open_efi_grows:
  assumes "files_contract F owned" and "open_efi F root f = (r, f')"
  shows "owned f' = owned f"
  using assms(2)
  by (auto simp: open_efi_def split: prod.splits option.splits file_type.splits dest!: files_contractD [OF assms(1)])

lemma probe_loop_grows:
  assumes c: "files_contract F owned" and run: "probe_loop F up device root efi own buf out f = Some r"
  shows "owned (snd r) = owned f"
proof -
  have "files_contract F owned \<longrightarrow> owned (snd r) = owned f"
    using run
  proof (induction rule: probe_loop.raw_induct [rotated, consumes 1, case_names step])
    case (step loop F up device root efi own buf out f r)
    show ?case
    proof
      assume c: "files_contract F owned"
      obtain e f1 where e: "read_entry F efi buf f = (e, f1)" by force
      have f1: "owned f1 = owned f" by (rule files_contractD(8) [OF c e])
      have again: "owned (snd r) = owned f2" if "loop F up device root efi own buf' out' f2 = Some r" for buf' out' f2
        using step(1) [OF that] c by simp
      have loaders: "owned f2 = owned f1" if "try_loaders F up device root own v LOADERS out f1 = (out', f2)" for v out' f2
        by (rule try_loaders_grows [OF c that])
      show "owned (snd r) = owned f"
        using step(2) e f1 again loaders
        by (auto split: entry_result.splits option.splits if_splits prod.splits)
    qed
  qed
  with c show ?thesis by blast
qed

lemma probe_grows:
  assumes "files_contract F owned" and "probe F up device root own out f = Some (r, f')"
  shows "owned f' = owned f"
  using assms(2)
  by (auto simp: probe_def Let_def split: prod.splits option.splits if_splits
      dest!: file_exists_grows [OF assms(1)] open_efi_grows [OF assms(1)] probe_loop_grows [OF assms(1)])

lemma scan_volumes_grows:
  assumes "files_contract F owned" and "services_contract F owned"
  shows "scan_volumes F up own ds out f = Some (r, f') \<Longrightarrow> owned f \<subseteq> owned f'"
proof (induction ds arbitrary: out f)
  case (Cons d ds)
  obtain fs f1 where o: "open_file_system F d f = (fs, f1)" by force
  note f1 = services_contractD(6) [OF assms(2) o]
  obtain root f2 where v: "open_volume F (the fs) f1 = (root, f2)" by force
  note f2 = files_contractD(2) [OF assms(1) v]
  show ?case
    using Cons o v f1 f2 probe_grows [OF assms(1), of up d "the root" own out f2]
    by (cases fs; cases root) (fastforce split: option.splits prod.splits)+
qed simp

lemma scan_grows:
  assumes "files_contract F owned" and "services_contract F owned" and "scan F up f = Some (r, f')"
  shows "owned f \<subseteq> owned f'"
proof -
  obtain hs f1 where h: "locate_file_systems F f = (hs, f1)" by force
  obtain own f2 where o: "own_image F f1 = (own, f2)" by force
  have "owned f1 \<subseteq> owned f2"
    using o by (auto simp: own_image_def split: prod.splits option.splits dest!: services_contractD(7) [OF assms(2)])
  with h o assms(3) services_contractD(5) [OF assms(2) h] scan_volumes_grows [OF assms(1,2), of up own "the hs" "[]" f2]
  show ?thesis by (cases hs) (auto simp: scan_def)
qed

lemma full_config_grows:
  assumes "files_contract F owned" and "services_contract F owned" and "full_config F up f = Some (c, f')"
  shows "owned f \<subseteq> owned f'"
proof -
  obtain r f1 where l: "load F f = (r, f1)" by force
  with assms(3) scan_grows [OF assms(1,2), of up f1] load_grows [OF assms(1) l] show ?thesis
    by (auto simp: full_config_def Let_def split: option.splits if_splits)
qed

lemma chain_boot_grows:
  assumes "services_contract F owned" and "chain_boot F device p f = Some (s, f')"
  shows "owned f \<subseteq> owned f'"
proof -
  have fp: "owned f \<subseteq> owned f1" if "full_path F device p f = (q, f1)" for q f1
    using that
    by (auto simp: full_path_def boot_device_def split: option.splits prod.splits
        dest!: services_contractD(7,8) [OF assms(1)])
  obtain q f1 where q: "full_path F device p f = (q, f1)" by force
  obtain im f2 where im: "load_image F (the q) f1 = (im, f2)" by force
  note g = fp [OF q] services_contractD(9) [OF assms(1) im]
  show ?thesis
  proof (cases q)
    case None
    have "chain_boot F device p f = Some (NOT_FOUND, f1)" using q None by (simp add: chain_boot_def)
    with assms(2) g show ?thesis by auto
  next
    case (Some dp)
    show ?thesis
    proof (cases im)
      case (Inl e)
      have "chain_boot F device p f = Some (e, f2)" using q im Some Inl by (simp add: chain_boot_def)
      with assms(2) g show ?thesis by auto
    next
      case (Inr h)
      have r: "chain_boot F device p f = (case start_image F h f2 of
          None \<Rightarrow> None | Some (Inr (), f) \<Rightarrow> Some (SUCCESS, f) | Some (Inl e, f) \<Rightarrow> Some (e, f))"
        using q im Some Inr by (simp add: chain_boot_def)
      obtain x where "start_image F h f2 = Some (x, f')"
      proof (cases "start_image F h f2")
        case (Some y)
        obtain x f3 where y: "y = (x, f3)" by force
        have "f3 = f'" using r assms(2) unfolding Some y by (cases x) (simp_all split: unit.splits)
        with that [of x] Some y show ?thesis by simp
      qed (use r assms(2) in simp)
      from start_image_grows [OF assms(1) this] g show ?thesis by blast
    qed
  qed
qed

end
