(* ===== verification/BootSafety.thy ===== *)
theory BootSafety
  imports BootLoaded Services
begin

text \<open>
  Where a run of the loader, however it ends, has written: in memory the firmware handed out.
\<close>

section \<open>Where a boot writes\<close>

definition writes_owned :: "('f \<Rightarrow> u64 set) \<Rightarrow> 'f mach \<Rightarrow> 'f mach \<Rightarrow> bool" where
  "writes_owned owned st st' \<longleftrightarrow> owned (fw st) \<subseteq> owned (fw st') \<and>
     (\<forall>x. x \<notin> owned (fw st') \<longrightarrow> mem st' x = mem st x)"

lemma writes_owned_trans: "writes_owned owned s1 s2 \<Longrightarrow> writes_owned owned s2 s3 \<Longrightarrow> writes_owned owned s1 s3"
  unfolding writes_owned_def by (metis subset_iff)

lemma writes_owned_grow: "owned (fw st) \<subseteq> owned (fw st') \<Longrightarrow> mem st' = mem st \<Longrightarrow> writes_owned owned st st'"
  by (simp add: writes_owned_def)

lemma writes_owned_keeps: "keeps owned st st' \<Longrightarrow> names_safe owned st \<Longrightarrow> writes_owned owned st st'"
  unfolding writes_owned_def keeps_def names_safe_def by blast

text \<open>Kernels that are 32-bit, or whose segments end below the last page.\<close>

definition kernels_below_top :: "'f firmware \<Rightarrow> bool" where
  "kernels_below_top F \<longleftrightarrow> (\<forall>kp f img. fst (read_kernel F kp f) = Inr img \<longrightarrow>
     img ! 4 = ELFCLASS32 \<or> list_all seg_below_top (elf_segments img))"

lemma load_kernel_writes:
  assumes contract: "boot_contract F owned" and fresh: "fresh_start owned st" and top: "kernels_below_top F"
    and run: "load_kernel F kp st = Some (r, st')"
  shows "writes_owned owned st st'" and "names_safe owned st'"
proof -
  obtain q f where rk: "read_kernel F kp (fw st) = (q, f)" by force
  have f: "owned f = owned (fw st)" by (rule read_kernel_owned [OF boot_contractD(4) [OF contract] rk])
  let ?st = "st\<lparr>fw := f\<rparr>"
  have safe: "names_ok st" "names_range st \<subseteq> owned f" using fresh f by (auto simp: fresh_start_def names_safe_def)
  have same: "names_safe owned ?st" by (rule names_safe_fw) (use fresh f in \<open>simp_all add: fresh_start_def\<close>)
  have "writes_owned owned st st' \<and> names_safe owned st'"
  proof (cases "\<exists>img. q = Inr img \<and> image_error img = None")
    case True
    then obtain img where img: "q = Inr img" "image_error img = None" by blast
    have ri: "fst (read_kernel F kp (fw st)) = Inr img" using rk img(1) by simp
    have len: "length img < 2 ^ 64" by (rule read_kernel_length [OF ri])
    obtain r' where ls: "load_segments F img (elf_segments img) ?st = Some (r', st')"
      using run rk img by (auto simp: load_kernel_def load_image_buf_eq [OF len])
    have below: "\<forall>s \<in> set (elf_segments img). seg_below_top s"
      using top ri elf32_segments_below by (force simp: kernels_below_top_def list_all_iff)
    have empty: "table_ok (\<lambda>g. owned g - S) ?st" for S
      using fresh by (simp add: table_ok_def fresh_start_def claims_def)
    note w = load_segments_owned [OF boot_contractD(2) [OF contract] len ls empty [of "{}", simplified] below]
    have k: "\<forall>x \<in> owned f. mem st' x = mem st x"
      using load_segments_fresh [OF boot_contractD(2) [OF contract] len ls empty [of "owned f"] _ below] by simp
    have names: "MOD_NAMES st' = MOD_NAMES st" "MOD_NAMES_POS st' = MOD_NAMES_POS st"
      using load_segments_statics [OF ls] by simp_all
    have "names_ok st'" by (rule names_ok_cong [OF names _ safe(1)]) (use k safe(2) in blast)
    with w safe(2) names(1) f show ?thesis by (auto simp: writes_owned_def names_safe_def names_range_def)
  next
    case False
    have "st' = ?st"
    proof (cases q)
      case (Inr img)
      then have "length img < 2 ^ 64" using rk by (intro read_kernel_length [of F kp "fw st"]) simp
      with run rk Inr False show ?thesis by (auto simp: load_kernel_def load_image_buf_eq split: option.splits)
    qed (use run rk in \<open>simp add: load_kernel_def\<close>)
    with same f show ?thesis by (simp add: writes_owned_def)
  qed
  then show "writes_owned owned st st'" "names_safe owned st'" by auto
qed

lemma boot_modules_writes:
  assumes "modules_contract F owned" and "names_safe owned st" and "boot_modules F mp st = Some (r, st')"
  shows "writes_owned owned st st'" and "r = Inr mods \<Longrightarrow> mods_loaded F owned mods st'"
proof -
  have "loop_ok F owned st (r, st')"
  proof (cases mp)
    case (Some dir)
    with assms(3) have "load_modules F dir st = Some (r, st')" by (simp add: boot_modules_def)
    from load_modules_rule [OF assms(1,2) this] show ?thesis .
  qed (use assms(2,3) in \<open>auto simp: boot_modules_def loop_ok_def keeps_refl modules_held_Nil\<close>)
  with assms(2) show "writes_owned owned st st'" "r = Inr mods \<Longrightarrow> mods_loaded F owned mods st'"
    by (auto simp: loop_ok_def mods_loaded_def intro: writes_owned_keeps)
qed

lemma same_outside_writes:
  assumes "same_outside a INFO_SIZE (mem st) (mem st')" and "page_range a INFO_PAGES \<subseteq> owned (fw st)"
    and "fw st' = fw st"
  shows "writes_owned owned st st'"
  using assms by (auto simp: writes_owned_def same_outside_def info_range)

lemma enter_kernel_writes:
  assumes "mods_loaded F owned mods st3" and "info_free owned st3 (INFO_AT st)" and "mem st = mem st3"
    and "rsdp_ok r" and "page_range (INFO_AT st) INFO_PAGES \<subseteq> owned (fw st)"
    and "enter_kernel ki ds fb mods r st = Some (e, st')"
  shows "writes_owned owned st st'"
proof -
  obtain names where n: "list_all2 (named (INFO_AT st) (mem st)) mods names"
    using mods_named [OF assms(1,2)] assms(3) by metis
  have one: "writes_owned owned st s" if "build_mb1_info ds mods st = (p, s)" for p s
    using build_mb1_info_parts(2,7) [OF n that] assms(5) by (intro same_outside_writes)
  have two: "writes_owned owned st s" if "build_mb2_info ds fb mods r st = Some (p, s)" for p s
    using build_mb2_info_bytes(2,5) [OF n assms(4) that] assms(5) by (intro same_outside_writes)
  show ?thesis
    using assms(6) one two
    by (auto simp: enter_kernel_def writes_owned_grow split: boot_mode.splits if_splits option.splits prod.splits)
qed

lemma reserve_grow:
  assumes "alloc_contract F owned" and "reserve F st = (ok, st')"
  shows "owned (fw st) \<subseteq> owned (fw st') \<and> mem st' = mem st"
  using assms(2) by (auto simp: reserve_def dest!: alloc_contract_owned [OF assms(1)] split: prod.splits option.splits)

lemma boot_multiboot_writes:
  assumes contract: "boot_contract F owned" and fresh: "fresh_start owned st" and top: "kernels_below_top F"
    and run: "boot_multiboot F kp mp st = Some (e, st')"
  shows "writes_owned owned st st'"
proof -
  note d = boot_contractD [OF contract]
  obtain k st1 where lk: "load_kernel F kp st = Some (k, st1)"
    using run by (auto simp: boot_multiboot_def split: option.splits)
  note w1 = load_kernel_writes [OF contract fresh top lk]
  show ?thesis
  proof (cases k)
    case (Inl p)
    with run lk w1(1) show ?thesis by (simp add: boot_multiboot_def)
  next
    case (Inr ki)
    obtain m st2 where bm: "boot_modules F mp st1 = Some (m, st2)"
      using run lk Inr by (auto simp: boot_multiboot_def split: option.splits)
    have w2: "writes_owned owned st st2"
      by (rule writes_owned_trans [OF w1(1) boot_modules_writes(1) [OF d(1) w1(2) bm]])
    show ?thesis
    proof (cases m)
      case (Inl p)
      with run lk Inr bm w2 show ?thesis by (simp add: boot_multiboot_def)
    next
      case ms: (Inr mods)
      have l2: "mods_loaded F owned mods st2" by (rule boot_modules_writes(2) [OF d(1) w1(2) bm ms])
      obtain fb r st3 where di: "display_info F (mb_version ki) st2 = (fb, r, st3)" by (metis prod_cases3)
      obtain ok st4 where re: "reserve F st3 = (ok, st4)" by force
      note di3 = display_info_keeps [OF contract di]
      have w3: "writes_owned owned st st3"
        by (rule writes_owned_trans [OF w2 writes_owned_grow]) (simp_all add: di3)
      have l3: "mods_loaded F owned mods st3"
        by (rule mods_loaded_agree [OF _ _ _ _ l2]) (simp_all add: di3)
      have w4: "writes_owned owned st st4"
        using reserve_grow [OF d(2) re] by (intro writes_owned_trans [OF w3 writes_owned_grow]) simp_all
      show ?thesis
      proof (cases ok)
        case False
        with run lk Inr bm ms di re w4 show ?thesis by (simp add: boot_multiboot_def)
      next
        case True
        have re1: "reserve F st3 = (True, st4)" using re True by simp
        note res = reserve_result [OF d(2,3) re1]
        obtain ds f where ex: "exit_boot_services F LOADER_DATA (fw st4) = (ds, f)" by force
        have f: "owned (fw st4) \<subseteq> owned f" by (rule d(5) [OF ex])
        have "enter_kernel ki ds fb mods r (st4\<lparr>fw := f\<rparr>) = Some (e, st')"
          using run lk Inr bm ms di re True ex by (simp add: boot_multiboot_def)
        then have "writes_owned owned (st4\<lparr>fw := f\<rparr>) st'"
          by (rule enter_kernel_writes [rotated 5, OF _ l3])
            (use res f di3 in \<open>auto simp: info_free_def\<close>)
        moreover have "writes_owned owned st (st4\<lparr>fw := f\<rparr>)"
          by (rule writes_owned_trans [OF w4 writes_owned_grow]) (simp_all add: f)
        ultimately show ?thesis by (rule writes_owned_trans [rotated])
      qed
    qed
  qed
qed

section \<open>A whole run\<close>

text \<open>Only a configuration file has command lines.\<close>

lemma full_config_options:
  assumes "linux_contract F owned" and "full_config F up f = Some (c, f')" and "e \<in> set (entries c)"
    and "target e = Linux k i cmd"
  shows "str_len cmd \<le> 4 * (64 * 1024)"
proof -
  have rd: "length bs \<le> n" if "fst (file_read F h n f) = Some bs" for h n f bs
    using linux_contractD(4) [OF assms(1)] that by (metis prod.collapse)
  obtain r f1 where l: "load F f = (r, f1)" by force
  define c0 where "c0 = (case r of None \<Rightarrow> builtin | Some (c, _) \<Rightarrow> c)"
  have "c = c0 \<or> (\<exists>found. c = fold add_found found c0)"
    using assms(2) l by (cases r) (auto simp: full_config_def c0_def Let_def split: option.splits if_splits)
  then obtain es where es: "entries c = entries c0 @ es" and "\<forall>e \<in> set es. \<exists>p d. target e = Chainload p d"
    using fold_add_found [of _ c0] by (metis (no_types, lifting) append_Nil2 empty_iff empty_set entry.select_convs(2))
  with assms(3,4) have e: "e \<in> set (entries c0)" by fastforce
  show ?thesis
  proof (cases r)
    case None
    with e assms(4) show ?thesis by (simp add: c0_def builtin_def)
  next
    case (Some cn)
    obtain c1 ns where cn: "cn = (c1, ns)" by force
    have "fst (load F f) = Some (c1, ns)" using l Some cn by simp
    from load_options [OF rd this _ assms(4)] e show ?thesis by (simp add: c0_def Some cn)
  qed
qed


section \<open>Examples\<close>

lemma demo_boot_below: "kernels_below_top demo_boot"
  by (simp add: kernels_below_top_def demo_boot_reads demo_elf32_def elf_consts)

lemma demo_boot_services: "services_contract demo_boot granted"
  by (simp add: services_contract_def keeps_pages_def demo_boot_def demo_fw_file_def demo_fw_def)

lemma demo_boot_linux: "linux_contract demo_boot granted"
proof -
  have "modules_contract demo_boot granted" by (rule boot_contractD(1) [OF demo_boot_contract])
  then show ?thesis
    by (simp add: modules_contract_def linux_contract_def read_contract_def demo_elf32_length)
      (simp add: demo_boot_def demo_fw_file_def demo_elf32_length)
qed

text \<open>The file is no text, so there is no configuration; the scan finds no volume; the built-in entry boots.\<close>

lemma demo_boot_main:
  "\<exists>addr st'. main demo_boot up demo_names = Some (InKernel32 0x20000C addr MB1_BOOT_MAGIC, st') \<and>
    fw st' = [(0x1FB000, 4), (0x1FF000, 1), (0xFFFFF000, 0), (0x200000, 1), (0x7F000000, 1)]"
proof -
  have u: "utf8_decode demo_elf32 = None"
    by (simp add: demo_elf32_def utf8_cont_def Let_def)
  have l: "load demo_boot f = (None, f)" for f
    using u by (simp add: load_def demo_boot_def demo_fw_file_def demo_fw_def demo_elf32_length)
  have s: "scan demo_boot up f = Some ([], f)" for f
    by (simp add: scan_def demo_boot_def demo_fw_file_def demo_fw_def)
  have c: "full_config demo_boot up f = Some (builtin, f)" for f
    by (simp add: full_config_def l s Let_def)
  have i: "choose_entry demo_boot builtin f = Some (0, f)" for f
    by (simp add: choose_entry_def builtin_def)
  have n: "length (entries builtin) = 1" by (simp add: builtin_def)
  have id: "demo_names\<lparr>fw := fw demo_names\<rparr> = demo_names" by simp
  have "main demo_boot up demo_names = boot_entry demo_boot (target (entries builtin ! 0)) demo_names"
    unfolding main_def c by (simp add: i n id)
  then show ?thesis
    using demo_boot_enters [where ?m0.0 = "\<lambda>_. 0"] unfolding demo_names_zero
    by (simp add: boot_entry_def builtin_def)
qed


end
