(* ===== verification/BootEntry.thy ===== *)
theory BootEntry
  imports BootSafety
begin

text \<open>
  From the firmware to the kernel's first instruction: the boot of \<open>BootLoaded\<close>, and the trampoline
  that takes the processor into the kernel it loaded.
\<close>

section \<open>Into the kernel\<close>

lemma told_agree:
  assumes "\<And>x. x \<in> page_range a INFO_PAGES \<Longrightarrow> m' x = m x" and "told version a m ds fb mods names r"
  shows "told version a m' ds fb mods names r"
proof -
  have b: "m' (a + of_nat i) = m (a + of_nat i)" if "i < INFO_SIZE" for i
    using that by (intro assms(1)) (simp add: info_range [symmetric] in_range_def unat_of_nat INFO_SIZE_def)
  then have "info.view a m' = info.view a m"
    by (intro nth_equalityI) (simp_all add: win_get_def)
  then have "part a m' k n = part a m k n" for k n by (simp add: part_def)
  moreover have "mem_read m' a INFO_SIZE = mem_read m a INFO_SIZE"
    using b by (intro mem_read_cong)
  ultimately show ?thesis using assms(2) by (cases "version = 1") (simp_all add: told_def module_written_def)
qed


section \<open>Examples\<close>

text \<open>
  The same boot on a machine whose memory holds the trampoline's image at 3 MiB, and the call to it
  with the stack at 4 MiB.
\<close>

definition demo_tramp3 :: tramp where
  "demo_tramp3 = demo_tramp\<lparr>at := 0x300000\<rparr>"

definition demo_kernel_boot :: "(ending \<times> grants mach) option" where
  "demo_kernel_boot = boot_multiboot demo_boot [0x6B] (Some [0x61])
     (demo_names\<lparr>mem := mem_write (\<lambda>_. 0) 0x300000 (blob demo_tramp3)\<rparr>)"

definition demo_call :: "u32 \<Rightarrow> memory \<Rightarrow> cpu" where
  "demo_call addr m = demo_cpu\<lparr>gpr := (\<lambda>_. 0)(RCX := 0x20000C, RDX := ucast addr, R8 := ucast MB1_BOOT_MAGIC, RSP := 0x400000),
     ram := m\<rparr>"

lemma page_run: "page_range a n = run_of a (unat n * 4096)"
  by (simp add: page_range_def run_of_def)

lemma demo_pages_clear:
  "granted [(0x1FB000, 4), (0x1FF000, 1), (0xFFFFF000, 0), (0x200000, 1), (0x7F000000, 1)] \<inter>
    (run_of TRAMP_ADDR 4096 \<union> run_of 0x3FFFF0 16 \<union> run_of 0x300000 52) = {}"
proof -
  have z: "run_of a 0 = {}" for a by (simp add: run_of_def in_range_def)
  have apart: "run_of a n \<inter> run_of b k = {}"
    if "unat a + n \<le> unat b \<and> unat b + k \<le> 2 ^ 64 \<or> unat b + k \<le> unat a \<and> unat a + n \<le> 2 ^ 64" for a b n k
    using that run_of_disjoint [of a n b k] run_of_disjoint [of b k a n] by blast
  have "run_of p n \<inter> (run_of TRAMP_ADDR 4096 \<union> run_of 0x3FFFF0 16 \<union> run_of 0x300000 52) = {}"
    if "(p, n) \<in> {(0x1FB000, 16384), (0x1FF000, 4096), (0x200000, 4096), (0x7F000000, 4096)}" for p n
    using that by (auto simp: Int_Un_distrib TRAMP_ADDR_def intro!: apart)
  then show ?thesis by (auto simp: granted_def page_run z Int_Un_distrib2)
qed

lemma demo_blob3: "length (blob demo_tramp3) = 52"
  by (simp add: length_blob off_gdt_def head_bytes_def demo_tramp3_def demo_tramp_def)

lemma demo_kernel_boot_enters:
  "\<exists>addr st'. demo_kernel_boot = Some (InKernel32 0x20000C addr MB1_BOOT_MAGIC, st') \<and>
    fw st' = [(0x1FB000, 4), (0x1FF000, 1), (0xFFFFF000, 0), (0x200000, 1), (0x7F000000, 1)] \<and>
    tramp_ready demo_tramp3 (demo_call addr (mem st'))"
proof -
  define m0 where "m0 = mem_write (\<lambda>_. 0) 0x300000 (blob demo_tramp3)"
  obtain addr st' where b: "boot_multiboot demo_boot [0x6B] (Some [0x61]) (demo_names\<lparr>mem := m0\<rparr>) =
      Some (InKernel32 0x20000C addr MB1_BOOT_MAGIC, st')"
    and f: "fw st' = [(0x1FB000, 4), (0x1FF000, 1), (0xFFFFF000, 0), (0x200000, 1), (0x7F000000, 1)]"
    using demo_boot_enters by blast
  note clear = demo_pages_clear [folded f]
  have w: "writes_owned granted (demo_names\<lparr>mem := m0\<rparr>) st'"
    by (rule boot_multiboot_writes [OF demo_boot_contract demo_fresh demo_boot_below b])
  have "mem_read (mem st') 0x300000 52 = mem_read m0 0x300000 52"
  proof (rule mem_read_run)
    fix x assume "x \<in> run_of 0x300000 52"
    with clear have "x \<notin> granted (fw st')" by blast
    with w show "mem st' x = m0 x" by (simp add: writes_owned_def)
  qed simp
  also have "\<dots> = blob demo_tramp3"
    using mem_read_write_same [of "blob demo_tramp3" "\<lambda>_. 0" "0x300000"] demo_blob3 by (simp add: m0_def)
  finally have r: "mem_read (mem st') 0x300000 52 = blob demo_tramp3" .
  have "run_of 0x300000 52 \<inter> run_of TRAMP_ADDR 4096 = {}" "run_of 0x3FFFF0 16 \<inter> run_of TRAMP_ADDR 4096 = {}"
    by (rule run_of_disjoint; simp add: TRAMP_ADDR_def)+
  with r demo_blob3 have "tramp_ready demo_tramp3 (demo_call addr (mem st'))"
    by (simp add: tramp_ready_def demo_call_def demo_cpu_def demo_tramp3_def demo_tramp_def
        code64_segment_def code_segment_def PG_def PE_def)
  with b f show ?thesis by (auto simp: demo_kernel_boot_def m0_def)
qed


end
