(* ===== verification/LinuxEntry.thy ===== *)
theory LinuxEntry
  imports BootFlow
begin

text \<open>
  The end of \<open>linux.rs\<close>: the call through the handover entry, on the processor of \<open>Trampoline\<close>, and what
  the kernel finds in its registers and in memory.
\<close>

section \<open>The call\<close>

text \<open>
  A call by the System V convention: three arguments in \<open>RDI\<close>, \<open>RSI\<close> and \<open>RDX\<close>, the address to
  return to (which the compiler chooses) on the stack. The result is where the processor is next.
\<close>

definition sysv64_call :: "u64 \<Rightarrow> u64 \<Rightarrow> u64 \<Rightarrow> u64 \<Rightarrow> u64 \<Rightarrow> cpu \<Rightarrow> u64 \<times> cpu" where
  "sysv64_call f a b d ret c = (f, push64 ret (set_gpr RDX d (set_gpr RSI b (set_gpr RDI a c))))"

definition handover :: "u64 \<Rightarrow> u64 option \<Rightarrow> u64 \<Rightarrow> u64 \<Rightarrow> u64 \<Rightarrow> cpu \<Rightarrow> u64 \<times> cpu" where
  "handover image_handle system_table ret entry params c =
     sysv64_call entry image_handle (case system_table of None \<Rightarrow> 0 | Some p \<Rightarrow> p) params ret c"

text \<open>The call changes three registers, the stack and its pointer, and nothing else of the processor.\<close>

lemma handover_effect:
  assumes "handover ih tbl ret entry params c = (rip, c')"
  shows "rip = entry" and "gpr c' RDI = ih" and "gpr c' RSI = (case tbl of None \<Rightarrow> 0 | Some p \<Rightarrow> p)"
    and "gpr c' RDX = params" and "gpr c' RSP = gpr c RSP - 8"
    and "mem_read (ram c') (gpr c' RSP) 8 = to_le 8 ret"
    and "cs c' = cs c" and "cr0 c' = cr0 c" and "cr3 c' = cr3 c" and "efer c' = efer c"
    and "x \<notin> run_of (gpr c RSP - 8) 8 \<Longrightarrow> ram c' x = ram c x"
proof -
  have c': "c' = push64 ret (set_gpr RDX params (set_gpr RSI (case tbl of None \<Rightarrow> 0 | Some p \<Rightarrow> p) (set_gpr RDI ih c)))"
    and rip: "rip = entry"
    using assms by (simp_all add: handover_def sysv64_call_def)
  show "rip = entry" by (rule rip)
  show "gpr c' RDI = ih" "gpr c' RSI = (case tbl of None \<Rightarrow> 0 | Some p \<Rightarrow> p)" "gpr c' RDX = params"
    "gpr c' RSP = gpr c RSP - 8" "cs c' = cs c" "cr0 c' = cr0 c" "cr3 c' = cr3 c" "efer c' = efer c"
    by (simp_all add: c' cpu_simps)
  have m: "ram c' = mem_write (ram c) (gpr c RSP - 8) (to_le 8 ret)" by (simp add: c' cpu_simps)
  show "mem_read (ram c') (gpr c' RSP) 8 = to_le 8 ret"
    using mem_read_write_same [of "to_le 8 ret" "ram c" "gpr c RSP - 8"] by (simp add: m c' cpu_simps)
  show "x \<notin> run_of (gpr c RSP - 8) 8 \<Longrightarrow> ram c' x = ram c x" by (simp add: m mem_write_run)
qed

section \<open>Into the kernel\<close>

lemma initrd_ok_agree:
  assumes "initrd_ok owned F ip f st ird" and "\<And>x. x \<in> owned (fw st) \<Longrightarrow> m x = mem st x"
  shows "initrd_ok owned F ip f (st\<lparr>mem := m\<rparr>) ird"
proof (cases ird)
  case (Some ab)
  obtain at bs where ab: "ird = Some (at, bs)" by (cases ab) (simp add: Some)
  have r: "run_of at (length bs) \<subseteq> owned (fw st)" "unat at + length bs \<le> 2 ^ 32" "mem_read (mem st) at (length bs) = bs"
    using assms(1) by (simp_all add: initrd_ok_def ab)
  have "mem_read m at (length bs) = mem_read (mem st) at (length bs)"
    using r(1,2) assms(2) by (intro mem_read_run) auto
  with assms(1) r show ?thesis by (simp add: initrd_ok_def ab)
qed (simp add: initrd_ok_def)


section \<open>Examples\<close>

definition demo_linux_call :: "memory \<Rightarrow> cpu" where
  "demo_linux_call m = demo_cpu\<lparr>gpr := (\<lambda>_. 0)(RSP := 0x300000), ram := m\<rparr>"


end
