(* ===== verification/Spec2Isabelle.thy ===== *)
theory Spec2Isabelle
  imports BootEntry LinuxEntry
begin

text \<open>
  Bang, a UEFI boot loader for x86-64: a verification library.

  The program. The firmware starts \<open>main\<close> (\<open>src/src/main.rs\<close>). It reads \<open>\bang.cfg\<close> (\<open>config.rs\<close>),
  adds the loaders it finds on other volumes (\<open>discover.rs\<close>), lets the user choose (\<open>menu.rs\<close>) and
  boots the choice in one of three ways: another UEFI application (\<open>chain.rs\<close>), a Linux kernel by the
  EFI handover protocol (\<open>linux.rs\<close>), or a Multiboot kernel. For the last it loads the ELF image
  (\<open>elf.rs\<close>) and the boot modules (\<open>modules.rs\<close>), looks up the framebuffer (\<open>gop.rs\<close>) and the ACPI
  tables, reserves memory for the boot information, leaves boot services, writes the information
  (\<open>multiboot.rs\<close>) and enters the kernel, in 32-bit protected mode (\<open>trampoline.rs\<close>) or, for a
  64-bit image without a Multiboot header, directly (\<open>handoff.rs\<close>).

  State. The loader's state is the record \<open>mach\<close> of \<open>Uefi\<close>: the firmware's own state (of any type),
  physical memory as a function from 64-bit addresses to bytes, and the statics of the program,
  \<open>ALLOC_PAGES\<close> and \<open>ALLOC_COUNT\<close> of \<open>elf.rs\<close>, \<open>MOD_NAMES\<close> (the buffer's address) and its position of
  \<open>modules.rs\<close>, and \<open>INFO_AT\<close> of \<open>multiboot.rs\<close>. An operation takes a state and returns the next one with
  its result. A panic or an early return is a value of a sum or a status; a run that never returns
  is \<open>None\<close>. The \<open>uefi\<close> crate and the firmware behind it are not in the repository: its calls are
  the fields of the record \<open>firmware\<close>, an argument of every operation that uses them, and what is
  relied on of them is stated as contracts over the pages it has handed out
  (\<open>alloc_contract\<close>, \<open>max_address_contract\<close>, \<open>files_contract\<close>, \<open>modules_contract\<close>, \<open>linux_contract\<close>,
  \<open>boot_contract\<close>, \<open>services_contract\<close>).
  \<open>DemoFirmware\<close> is a firmware that keeps them all; the examples that end each theory run on it.

  Theories, from the bottom:

    \<open>Prelude\<close>        types of the target, words and naturals, little-endian lists, \<open>splice\<close>
    \<open>Memory\<close>         memory, and the interfaces \<open>byte_store\<close> and \<open>framed_store\<close> of things written by offset
    \<open>Page\<close>           runs of addresses, and one page as such a store
    \<open>RustStd\<close>        \<open>str\<close> as Unicode scalar values: lines, trimming, numbers, UTF-8
    \<open>Uefi\<close>           the firmware's calls, the loader's state, the contracts
    \<open>DemoFirmware\<close>   the concrete firmware of the examples
    \<open>Elf\<close>            \<open>elf.rs\<close>: headers read from bytes; \<open>detect_multiboot_version\<close>, both of whose scans
                     interpret the locale \<open>header_scan\<close>
    \<open>ElfSegment\<close>     \<open>elf.rs\<close>: \<open>load_segment\<close>, its table of claimed pages and its loops
    \<open>ElfKernel\<close>      \<open>elf.rs\<close>: \<open>load_kernel\<close>; the loops over 32-bit and 64-bit program headers interpret
                     the locale \<open>phdr_walk\<close>
    \<open>CString\<close>        the C string scans of \<open>multiboot.rs\<close> and \<open>main.rs\<close>
    \<open>Modules\<close>        \<open>modules.rs\<close>: the name buffer and the directory loop
    \<open>Gop\<close>            \<open>gop.rs\<close>: \<open>query_gop\<close>
    \<open>Multiboot\<close>      \<open>multiboot.rs\<close>: \<open>find_rsdp\<close>, \<open>reserve\<close>, the writes they share; the reserved memory
                     interprets \<open>framed_store\<close>
    \<open>Multiboot1\<close>     \<open>multiboot.rs\<close>: \<open>build_mb1_info\<close>
    \<open>Multiboot2\<close>     \<open>multiboot.rs\<close>: \<open>build_mb2_info\<close>, its abstract layout, and a reader of it
    \<open>Config\<close>         \<open>config.rs\<close>: the parser and \<open>load\<close>
    \<open>Menu\<close>           \<open>menu.rs\<close>: what is drawn, the polling loop, and the key machine \<open>menu_run\<close> behind it
    \<open>Linux\<close>          \<open>linux.rs\<close>: the whole of \<open>boot\<close>
    \<open>Discover\<close>       \<open>discover.rs\<close>: \<open>scan\<close>
    \<open>Chain\<close>          \<open>chain.rs\<close>: \<open>full_path\<close> and \<open>boot\<close>
    \<open>Trampoline\<close>     \<open>trampoline.rs\<close>, \<open>handoff.rs\<close>: the assembly routines on a model of the processor
    \<open>BootFlow\<close>       \<open>main.rs\<close>: the flow, the list of entries and the choice
    \<open>BootLoaded\<close>     a Multiboot boot up to the jump: what is loaded is kept by every later stage
    \<open>Services\<close>       what the configuration, the scan, the menu and chainloading do to the memory handed out
    \<open>BootSafety\<close>     where a run of \<open>main\<close>, however it ends, has written
    \<open>BootEntry\<close>      the boot and the trampoline together, up to the kernel's first instruction
    \<open>LinuxEntry\<close>     \<open>linux.rs\<close>: the call through the handover entry, up to a Linux kernel's first instruction

  Names are those of the code; \<open>boot\<close> of \<open>linux.rs\<close> and \<open>chain.rs\<close> are \<open>linux_boot\<close> and \<open>chain_boot\<close>, \<open>choose\<close>
  of \<open>menu.rs\<close> is \<open>choose_entry\<close>, and the parts of a long function have names of their own.

  What the lemmas show. The contents: a loaded image has every segment's bytes in place and nothing
  else changed (\<open>ElfKernel\<close>, on \<open>ElfSegment\<close>); modules hold their files in pages of their own and keep
  what was loaded before (\<open>keeps\<close> in \<open>Modules\<close>); \<open>boot_params\<close> and everything it points to is laid out
  (\<open>Linux\<close>). The information: the writes of \<open>build_mb2_info\<close> refine a list of tags (\<open>mb2_image\<close>), which a
  reader gets back; those of \<open>build_mb1_info\<close> fill fixed parts of the memory. Safety: what is
  written is memory the firmware handed out. Totality: \<open>load_kernel\<close> returns on every file; the
  loops of \<open>modules.rs\<close> return on directories whose entries fit the buffer, and not otherwise.
  Text: parsing what was printed gives it back; lines that say nothing do not matter. The menu:
  its loop refines a machine of keys and clock ticks, with an invariant, a bound on the polls
  until the default, and no boot after the clock is stopped. The scan finds exactly the loaders
  there are. The processor: both assembly routines enter the kernel in the documented state.
  The boot as a whole: kernel, modules, names and information reach the kernel's first instruction
  intact (\<open>loaded\<close> in \<open>BootLoaded\<close> is kept from stage to stage, and in \<open>BootEntry\<close> by the trampoline);
  a Linux kernel's has the registers and the memory of the handover protocol (\<open>LinuxEntry\<close>);
  the configuration that is offered is what was written and what was found (\<open>BootFlow\<close>); and all
  that a run writes is memory it was given (\<open>BootSafety\<close>).

  Bounds and fuel. Machine integers are words of the target's width, and sums wrap as in the
  release build the Makefile makes (\<open>cargo build --release\<close>, no overflow checks); where a sum is
  shown not to wrap, the bound is a hypothesis or follows from the code's own checks. No loop of
  the model runs on fuel: loops that may not end are partial functions with \<open>None\<close> for divergence.
  The trampoline runs two jumps and the final one, which is all its code has. The theorems
  about a kernel's first instruction assume that the stack in use is not memory that was handed out. Two hypotheses recur:
  the segments of an image do not overlap, and they end a page below the top of the address space;
  \<open>ElfSegment\<close> shows what happens to one that does not.

  Not modelled. \<open>console.rs\<close> and the \<open>println!\<close> lines, which print and have no effect on what
  follows (what the configuration parser reports is kept as data, though). \<open>uefi::helpers::init\<close>
  and the allocator of \<open>alloc\<close>, whose failures abort. The inside of the \<open>uefi\<close> crate, including
  the retry in leaving boot services, and of the firmware; the drop of handles that closes a
  protocol. The Unicode upper-case table beyond ASCII (a parameter of \<open>pretty\<close>) and \<open>CString16\<close>'s
  conversion (a field of \<open>firmware\<close>). The machine code the assembler gives the relocated trampoline
  (a parameter, with its length) and the caches, page tables and interrupt controllers of the processor.
\<close>

end
